theory Spec2Isabelle
  imports Main "HOL-Library.AList"
begin

section \<open>Values of the host language\<close>

text \<open>
  The engine is three JavaScript functions, \<open>addProps\<close>, \<open>addChildren\<close> and
  \<open>createElement\<close>, that dispatch on the runtime shape of untyped values and mutate a
  DOM node. The embedding therefore starts with a universe of JavaScript values.

  \<^item> Numbers are integers of magnitude below \<open>2^53\<close>, which JavaScript holds exactly and
    prints in plain decimal (no fractions, no \<open>NaN\<close>); symbols and big integers are left out.
  \<^item> A function is an identifier; what it does when called is given by an environment
    (\<open>env\<close> below), so the theorems hold for every behaviour of user code.
  \<^item> An array carries its elements and its extra enumerable properties (an array may
    carry append hooks).
  \<^item> An object carries its prototype kind, the properties a \<open>for ... in\<close> loop visits, in
    the order the host enumerates them, and its non-enumerable properties (methods of a
    class). All of these have the \<open>Object.prototype.toString\<close> tag \<open>[object Object]\<close>.
  \<^item> A node has an optional identity (\<open>None\<close> for a node nothing else refers to), a kind, a
    shell of string-valued host state (attributes, the \<open>class\<close> attribute, the custom-data
    map), its JavaScript properties, the entries of its style object and its children.
\<close>

type_synonym fid = nat

datatype nkind = ElementNode string | CommentNode string | TextNode string

datatype oproto = PlainProto | ClassProto string | NullProto

record shell =
  attrs :: "(string \<times> string) list"
  className :: string
  dataset :: "(string \<times> string) list"

datatype jsval =
    VUndefined
  | VNull
  | VBool bool
  | VNum int
  | VStr string
  | VFun fid
  | VArr "jsval list" "(string \<times> jsval) list"
  | VObj oproto "(string \<times> jsval) list" "(string \<times> jsval) list"
  | VNode node
and node =
  Node (nref: "nat option") (kind: nkind) (nshell: shell)
       (jsprops: "(string \<times> jsval) list") (style: "(string \<times> jsval) list")
       (childNodes: "node list")

datatype exn =
    Thrown jsval
  | TypeError
  | SyntaxError
  | InvalidCharacterError
  | HierarchyRequestError

text \<open>
  The environment: \<open>hook f this n\<close> is the call \<open>f.call(this, n)\<close> of a user function
  with the node under construction, giving the node as the call leaves it and the
  exception it raised, if any; \<open>produce f this\<close> is a call without arguments, which is
  taken not to touch the node under construction; \<open>fsource\<close> is the source text that
  \<open>Function.prototype.toString\<close> returns; \<open>iface\<close> is the middle part of an HTML element's
  interface name (\<open>Div\<close> in \<open>HTMLDivElement\<close>); \<open>accessor k name\<close> is the setter that the host
  puts behind the property \<open>name\<close> of a node of kind \<open>k\<close>, if it has one (\<open>textContent\<close>
  replaces the children, a property with a getter only raises \<open>TypeError\<close> in strict
  code, as module code is).
\<close>

record env =
  hook :: "fid \<Rightarrow> jsval \<Rightarrow> node \<Rightarrow> node \<times> exn option"
  produce :: "fid \<Rightarrow> jsval \<Rightarrow> exn + jsval"
  fsource :: "fid \<Rightarrow> string"
  iface :: "string \<Rightarrow> string"
  accessor :: "nkind \<Rightarrow> string \<Rightarrow> (jsval \<Rightarrow> node \<Rightarrow> exn + node) option"

text \<open>
  What the engine has done so far: the node, and the calls to user functions that
  the engine itself has made, oldest first.
\<close>

datatype role = CreateHook | BeforeAppend | AfterAppend | ToElement | ToStringCall

datatype event = Call role fid jsval "node option"

record world =
  el :: node
  trace :: "event list"

type_synonym outcome = "(exn \<times> world) + world"

section \<open>Language-level operations\<close>

text \<open>Decimal numerals, as \<open>String(n)\<close> prints an integer.\<close>

function showNat :: "nat \<Rightarrow> string" where
  "showNat n = (if n < 10 then [''0123456789'' ! n]
                else showNat (n div 10) @ [''0123456789'' ! (n mod 10)])"
  by pat_completeness auto
termination
  by (relation "measure id") auto

definition showInt :: "int \<Rightarrow> string" where
  "showInt i = (if i < 0 then CHR ''-'' # showNat (nat (- i)) else showNat (nat i))"

text \<open>\<open>if (v)\<close>: the falsy values are \<open>undefined\<close>, \<open>null\<close>, \<open>false\<close>, \<open>0\<close> and the empty string.\<close>

fun truthy :: "jsval \<Rightarrow> bool" where
  "truthy VUndefined = False"
| "truthy VNull = False"
| "truthy (VBool b) = b"
| "truthy (VNum i) = (i \<noteq> 0)"
| "truthy (VStr s) = (s \<noteq> [])"
| "truthy _ = True"

text \<open>\<open>v == null\<close> holds of \<open>null\<close> and \<open>undefined\<close> only.\<close>

fun isNullish :: "jsval \<Rightarrow> bool" where
  "isNullish VUndefined = True"
| "isNullish VNull = True"
| "isNullish _ = False"

text \<open>\<open>Array.isArray(v)\<close> and \<open>typeof v === 'function'\<close>.\<close>

fun isArray :: "jsval \<Rightarrow> bool" where
  "isArray (VArr xs ps) = True"
| "isArray _ = False"

fun isFunction :: "jsval \<Rightarrow> bool" where
  "isFunction (VFun f) = True"
| "isFunction _ = False"

text \<open>
  The properties a value carries itself. A property read \<open>v.name\<close> finds these first;
  \<open>toString\<close> and \<open>valueOf\<close> are otherwise inherited from the built-in prototypes by
  every value except \<open>undefined\<close>, \<open>null\<close> and an object without a prototype.
\<close>

fun getProp :: "jsval \<Rightarrow> string \<Rightarrow> jsval option" where
  "getProp (VArr xs ps) name = map_of ps name"
| "getProp (VObj p fs hs) name = map_of (fs @ hs) name"
| "getProp (VNode n) name = map_of (jsprops n) name"
| "getProp _ name = None"

fun inheritsBuiltins :: "jsval \<Rightarrow> bool" where
  "inheritsBuiltins VUndefined = False"
| "inheritsBuiltins VNull = False"
| "inheritsBuiltins (VObj NullProto fs hs) = False"
| "inheritsBuiltins _ = True"

datatype callee = User fid | Native

text \<open>
  \<open>methodOf v name\<close> is \<open>Some\<close> exactly when \<open>typeof v[name] === 'function'\<close>, and tells
  which function a call \<open>v[name]()\<close> runs.
\<close>

definition methodOf :: "jsval \<Rightarrow> string \<Rightarrow> callee option" where
  "methodOf v name =
     (case getProp v name of
        Some (VFun f) \<Rightarrow> Some (User f)
      | Some _ \<Rightarrow> None
      | None \<Rightarrow>
          if inheritsBuiltins v \<and> (name = ''toString'' \<or> name = ''valueOf'')
          then Some Native else None)"

text \<open>
  \<open>forIn v\<close> lists the keys that \<open>for (key in v)\<close> visits, in order, each with the value
  that the read \<open>v[key]\<close> then gives: nothing for \<open>undefined\<close>, \<open>null\<close>, booleans, numbers
  and functions; the indices of a string or an array (then the array's extra
  properties); the enumerable properties of an object. For a node only the properties
  assigned to it are listed.
\<close>

definition indexed :: "'a list \<Rightarrow> (string \<times> 'a) list" where
  "indexed xs = zip (map showNat [0..<length xs]) xs"

definition readKey :: "(string \<times> jsval) list \<Rightarrow> string \<Rightarrow> jsval" where
  "readKey ps k = (case map_of ps k of Some v \<Rightarrow> v | None \<Rightarrow> VUndefined)"

fun forIn :: "jsval \<Rightarrow> (string \<times> jsval) list" where
  "forIn (VStr s) = indexed (map (\<lambda>c. VStr [c]) s)"
| "forIn (VArr xs ps) = indexed xs @ map (\<lambda>k. (k, readKey ps k)) (map fst ps)"
| "forIn (VObj p fs hs) = map (\<lambda>k. (k, readKey (fs @ hs) k)) (map fst fs)"
| "forIn (VNode n) = map (\<lambda>k. (k, readKey (jsprops n) k)) (map fst (jsprops n))"
| "forIn _ = []"

text \<open>
  \<open>Object.prototype.toString.call(v)\<close>. Elements are HTML elements, whose interface
  is \<open>HTML...Element\<close>.
\<close>

fun classTag :: "env \<Rightarrow> jsval \<Rightarrow> string" where
  "classTag env VUndefined = ''Undefined''"
| "classTag env VNull = ''Null''"
| "classTag env (VBool b) = ''Boolean''"
| "classTag env (VNum i) = ''Number''"
| "classTag env (VStr s) = ''String''"
| "classTag env (VFun f) = ''Function''"
| "classTag env (VArr xs ps) = ''Array''"
| "classTag env (VObj p fs hs) = ''Object''"
| "classTag env (VNode n) =
     (case kind n of
        ElementNode tag \<Rightarrow> ''HTML'' @ iface env tag @ ''Element''
      | CommentNode t \<Rightarrow> ''Comment''
      | TextNode t \<Rightarrow> ''Text'')"

definition objectToString :: "env \<Rightarrow> jsval \<Rightarrow> string" where
  "objectToString env v = ''[object '' @ classTag env v @ '']''"

text \<open>
  String coercion, as the host applies it to a value that must be a string
  (\<open>ToString\<close>) and as \<open>'' + v\<close> applies it. A primitive has its fixed text. Any other
  value is first converted to a primitive by calling its \<open>toString\<close> and \<open>valueOf\<close>
  methods, in an order that depends on the hint; a method that is missing or that
  returns a non-primitive is passed over, and when neither yields a primitive the
  coercion raises \<open>TypeError\<close>. The built-in \<open>valueOf\<close> returns the value itself, which
  is not a primitive. The built-in \<open>toString\<close> of an array joins the coerced elements
  with commas, writing nothing for \<open>undefined\<close> and \<open>null\<close>.
\<close>

fun primToString :: "jsval \<Rightarrow> string option" where
  "primToString VUndefined = Some ''undefined''"
| "primToString VNull = Some ''null''"
| "primToString (VBool b) = Some (if b then ''true'' else ''false'')"
| "primToString (VNum i) = Some (showInt i)"
| "primToString (VStr s) = Some s"
| "primToString _ = None"

definition callPrim :: "env \<Rightarrow> fid \<Rightarrow> jsval \<Rightarrow> exn + string option" where
  "callPrim env f v =
     (case produce env f v of Inl e \<Rightarrow> Inl e | Inr r \<Rightarrow> Inr (primToString r))"

definition viaValueOf :: "env \<Rightarrow> jsval \<Rightarrow> (exn + string) \<Rightarrow> exn + string" where
  "viaValueOf env v otherwise =
     (case methodOf v ''valueOf'' of
        Some (User g) \<Rightarrow>
          (case callPrim env g v of
             Inl e \<Rightarrow> Inl e
           | Inr (Some s) \<Rightarrow> Inr s
           | Inr None \<Rightarrow> otherwise)
      | _ \<Rightarrow> otherwise)"

fun toStringJS :: "env \<Rightarrow> jsval \<Rightarrow> exn + string"
  and joinElems :: "env \<Rightarrow> jsval list \<Rightarrow> exn + string" where
  "toStringJS env (VArr xs ps) =
     (case methodOf (VArr xs ps) ''toString'' of
        Some (User f) \<Rightarrow>
          (case callPrim env f (VArr xs ps) of
             Inl e \<Rightarrow> Inl e
           | Inr (Some s) \<Rightarrow> Inr s
           | Inr None \<Rightarrow> viaValueOf env (VArr xs ps) (Inl TypeError))
      | Some Native \<Rightarrow> joinElems env xs
      | None \<Rightarrow> viaValueOf env (VArr xs ps) (Inl TypeError))"
| "toStringJS env (VObj p fs hs) =
     (case methodOf (VObj p fs hs) ''toString'' of
        Some (User f) \<Rightarrow>
          (case callPrim env f (VObj p fs hs) of
             Inl e \<Rightarrow> Inl e
           | Inr (Some s) \<Rightarrow> Inr s
           | Inr None \<Rightarrow> viaValueOf env (VObj p fs hs) (Inl TypeError))
      | Some Native \<Rightarrow> Inr (objectToString env (VObj p fs hs))
      | None \<Rightarrow> viaValueOf env (VObj p fs hs) (Inl TypeError))"
| "toStringJS env (VNode n) =
     (case methodOf (VNode n) ''toString'' of
        Some (User f) \<Rightarrow>
          (case callPrim env f (VNode n) of
             Inl e \<Rightarrow> Inl e
           | Inr (Some s) \<Rightarrow> Inr s
           | Inr None \<Rightarrow> viaValueOf env (VNode n) (Inl TypeError))
      | Some Native \<Rightarrow> Inr (objectToString env (VNode n))
      | None \<Rightarrow> viaValueOf env (VNode n) (Inl TypeError))"
| "toStringJS env (VFun f) = Inr (fsource env f)"
| "toStringJS env v = (case primToString v of Some s \<Rightarrow> Inr s | None \<Rightarrow> Inl TypeError)"
| "joinElems env [] = Inr []"
| "joinElems env (x # xs) =
     (case (if isNullish x then Inr [] else toStringJS env x) of
        Inl e \<Rightarrow> Inl e
      | Inr s \<Rightarrow>
          (if xs = [] then Inr s
           else (case joinElems env xs of Inl e \<Rightarrow> Inl e | Inr r \<Rightarrow> Inr (s @ '','' @ r))))"

text \<open>
  \<open>'' + v\<close>: the conversion to a primitive asks \<open>valueOf\<close> first and \<open>toString\<close> second,
  then the primitive is turned into text.
\<close>

definition concatEmpty :: "env \<Rightarrow> jsval \<Rightarrow> exn + string" where
  "concatEmpty env v =
     (case primToString v of
        Some s \<Rightarrow> Inr s
      | None \<Rightarrow> viaValueOf env v
          (case methodOf v ''toString'' of
             None \<Rightarrow> Inl TypeError
           | Some c \<Rightarrow> toStringJS env v))"

section \<open>The host tree\<close>

text \<open>
  The operations of the document tree that the engine calls, after the DOM Standard.
  Not modelled: ASCII lower-casing of names, the validation of style values and of
  custom-data names.
\<close>

definition emptyShell :: shell where
  "emptyShell = \<lparr>attrs = [], className = [], dataset = []\<rparr>"

definition isAsciiWhitespace :: "char \<Rightarrow> bool" where
  "isAsciiWhitespace c = (of_char c \<in> {9, 10, 12, 13, 32 :: nat})"

definition isAsciiAlpha :: "char \<Rightarrow> bool" where
  "isAsciiAlpha c = (let n = (of_char c :: nat) in (65 \<le> n \<and> n \<le> 90) \<or> (97 \<le> n \<and> n \<le> 122))"

definition isNameChar :: "char \<Rightarrow> bool" where
  "isNameChar c = (let n = (of_char c :: nat) in
     isAsciiAlpha c \<or> (48 \<le> n \<and> n \<le> 57) \<or> n = 45 \<or> n = 46 \<or> n = 58 \<or> n = 95 \<or> 128 \<le> n)"

definition validElementName :: "string \<Rightarrow> bool" where
  "validElementName name =
     (case name of
        [] \<Rightarrow> False
      | c # cs \<Rightarrow>
          if isAsciiAlpha c
          then (\<forall>d \<in> set name. \<not> isAsciiWhitespace d \<and> (of_char d :: nat) \<notin> {0, 47, 62})
          else ((of_char c :: nat) = 58 \<or> (of_char c :: nat) = 95 \<or> 128 \<le> (of_char c :: nat))
               \<and> (\<forall>d \<in> set cs. isNameChar d))"

definition validAttributeName :: "string \<Rightarrow> bool" where
  "validAttributeName name =
     (name \<noteq> [] \<and> (\<forall>d \<in> set name. \<not> isAsciiWhitespace d \<and> (of_char d :: nat) \<notin> {0, 47, 61, 62}))"

definition documentCreateElement :: "string \<Rightarrow> exn + node" where
  "documentCreateElement tag =
     (if validElementName tag then Inr (Node None (ElementNode tag) emptyShell [] [] [])
      else Inl InvalidCharacterError)"

definition createComment :: "string \<Rightarrow> node" where
  "createComment t = Node None (CommentNode t) emptyShell [] [] []"

definition createTextNode :: "string \<Rightarrow> node" where
  "createTextNode t = Node None (TextNode t) emptyShell [] [] []"

fun isElement :: "node \<Rightarrow> bool" where
  "isElement (Node r (ElementNode tag) sh ps st cs) = True"
| "isElement _ = False"

text \<open>
  \<open>refsOf n\<close>: the identities in the tree of \<open>n\<close>. \<open>detach k ns\<close>: the forest \<open>ns\<close> without
  the node of identity \<open>k\<close>, wherever it is.
\<close>

fun refsOf :: "node \<Rightarrow> nat list"
  and refsOfAll :: "node list \<Rightarrow> nat list" where
  "refsOf (Node r k sh ps st cs) = (case r of Some i \<Rightarrow> [i] | None \<Rightarrow> []) @ refsOfAll cs"
| "refsOfAll [] = []"
| "refsOfAll (n # ns) = refsOf n @ refsOfAll ns"

fun detach :: "nat \<Rightarrow> node list \<Rightarrow> node list" where
  "detach i [] = []"
| "detach i (Node r k sh ps st cs # ns) =
     (if r = Some i then detach i ns
      else Node r k sh ps st (detach i cs) # detach i ns)"

text \<open>
  \<open>pruneAll present ns\<close>: the forest \<open>ns\<close> without the nodes whose identity is in \<open>present\<close>,
  wherever they are.
\<close>

fun pruneAll :: "nat list \<Rightarrow> node list \<Rightarrow> node list" where
  "pruneAll present [] = []"
| "pruneAll present (Node r k sh ps st cs # ns) =
     (if (case r of Some i \<Rightarrow> i \<in> set present | None \<Rightarrow> False) then pruneAll present ns
      else Node r k sh ps st (pruneAll present cs) # pruneAll present ns)"

text \<open>
  \<open>parent.appendChild(child)\<close>: the parent must be an element and must not lie inside
  the child. A node has one place in the tree. A child that is already in the parent's
  tree is moved, not copied. A value handed to the engine shows a node as it was before
  the call: a node shown inside the child that is by now in the parent's tree has been
  moved there out of the child, so it is no longer under the child.
\<close>

definition attach :: "node \<Rightarrow> node \<Rightarrow> node" where
  "attach child parent =
     (let kids = (case nref child of
                    Some i \<Rightarrow> detach i (childNodes parent)
                  | None \<Rightarrow> childNodes parent)
      in Node (nref parent) (kind parent) (nshell parent) (jsprops parent) (style parent)
           (kids @ [Node (nref child) (kind child) (nshell child) (jsprops child) (style child)
                      (pruneAll (refsOfAll kids) (childNodes child))]))"

definition appendChild :: "node \<Rightarrow> node \<Rightarrow> exn + node" where
  "appendChild child parent =
     (if \<not> isElement parent then Inl HierarchyRequestError
      else if (case nref parent of Some i \<Rightarrow> i \<in> set (refsOf child) | None \<Rightarrow> False)
      then Inl HierarchyRequestError
      else Inr (attach child parent))"

text \<open>\<open>parent.appendChild(v)\<close> for any value: the host refuses what is not a node.\<close>

fun appendValue :: "jsval \<Rightarrow> node \<Rightarrow> exn + node" where
  "appendValue (VNode c) parent = appendChild c parent"
| "appendValue _ parent = Inl TypeError"

text \<open>
  \<open>setProperty\<close> stores a value as an ordinary data property of the node; \<open>setStyle\<close>
  stores an entry of the style object, which refuses array indices as keys.
\<close>

definition setProperty :: "string \<Rightarrow> jsval \<Rightarrow> node \<Rightarrow> node" where
  "setProperty key v n =
     Node (nref n) (kind n) (nshell n) (AList.update key v (jsprops n)) (style n) (childNodes n)"

definition setStyle :: "string \<Rightarrow> jsval \<Rightarrow> node \<Rightarrow> node" where
  "setStyle rule v n =
     Node (nref n) (kind n) (nshell n) (jsprops n) (AList.update rule v (style n)) (childNodes n)"

definition withShell :: "(shell \<Rightarrow> shell) \<Rightarrow> node \<Rightarrow> node" where
  "withShell f n = Node (nref n) (kind n) (f (nshell n)) (jsprops n) (style n) (childNodes n)"

definition setDataset :: "string \<Rightarrow> string \<Rightarrow> node \<Rightarrow> node" where
  "setDataset key s n = withShell (\<lambda>sh. sh\<lparr>dataset := AList.update key s (dataset sh)\<rparr>) n"

definition setClassName :: "string \<Rightarrow> node \<Rightarrow> node" where
  "setClassName s n = withShell (\<lambda>sh. sh\<lparr>className := s\<rparr>) n"

definition setAttribute :: "string \<Rightarrow> string \<Rightarrow> node \<Rightarrow> exn + node" where
  "setAttribute name s n =
     (if validAttributeName name
      then Inr (withShell (\<lambda>sh. sh\<lparr>attrs := AList.update name s (attrs sh)\<rparr>) n)
      else Inl InvalidCharacterError)"

definition isIndexKey :: "string \<Rightarrow> bool" where
  "isIndexKey s =
     (s \<noteq> [] \<and> (\<forall>c \<in> set s. 48 \<le> (of_char c :: nat) \<and> (of_char c :: nat) \<le> 57)
      \<and> (s = ''0'' \<or> hd s \<noteq> CHR ''0''))"

definition assignStyle :: "string \<Rightarrow> jsval \<Rightarrow> node \<Rightarrow> exn + node" where
  "assignStyle rule v n =
     (if \<not> isElement n \<or> isIndexKey rule then Inl TypeError else Inr (setStyle rule v n))"

text \<open>
  The assignment \<open>el[key] = v\<close>. On an element \<open>className\<close> is the \<open>class\<close> attribute, which
  takes the value as a string. Behind another name the host may have an accessor, which
  then decides what the assignment does to the host's state of the node (attributes,
  style, children) and whether it raises; it leaves the identity, the kind and the
  ordinary properties of the node alone. A name without accessor is an ordinary
  property and stores the value as it is.
\<close>

definition assign :: "env \<Rightarrow> string \<Rightarrow> jsval \<Rightarrow> node \<Rightarrow> exn + node" where
  "assign env key v n =
     (if key = ''className'' \<and> isElement n then
        (case toStringJS env v of Inl e \<Rightarrow> Inl e | Inr s \<Rightarrow> Inr (setClassName s n))
      else
        (case accessor env (kind n) key of
           None \<Rightarrow> Inr (setProperty key v n)
         | Some g \<Rightarrow>
             (case g v n of
                Inl e \<Rightarrow> Inl e
              | Inr n' \<Rightarrow>
                  Inr (Node (nref n) (kind n) (nshell n') (jsprops n) (style n') (childNodes n')))))"

text \<open>
  The class list is a view of the \<open>class\<close> attribute: the attribute is parsed into an
  ordered set of tokens, \<open>add\<close> checks every token (an empty one raises \<open>SyntaxError\<close>,
  one with whitespace \<open>InvalidCharacterError\<close>), appends those not yet present and
  writes the set back, separated by single spaces.
\<close>

fun splitWs :: "string \<Rightarrow> string \<Rightarrow> string list" where
  "splitWs cur [] = (if cur = [] then [] else [cur])"
| "splitWs cur (c # cs) =
     (if isAsciiWhitespace c
      then (if cur = [] then splitWs [] cs else cur # splitWs [] cs)
      else splitWs (cur @ [c]) cs)"

definition appendNew :: "string list \<Rightarrow> string \<Rightarrow> string list" where
  "appendNew seen t = (if t \<in> set seen then seen else seen @ [t])"

definition tokenSet :: "string \<Rightarrow> string list" where
  "tokenSet s = foldl appendNew [] (splitWs [] s)"

fun joinSp :: "string list \<Rightarrow> string" where
  "joinSp [] = []"
| "joinSp [t] = t"
| "joinSp (t # u # ts) = t @ '' '' @ joinSp (u # ts)"

fun validateTokens :: "string list \<Rightarrow> exn option" where
  "validateTokens [] = None"
| "validateTokens (t # ts) =
     (if t = [] then Some SyntaxError
      else if \<exists>c \<in> set t. isAsciiWhitespace c then Some InvalidCharacterError
      else validateTokens ts)"

definition classList :: "node \<Rightarrow> string list" where
  "classList n = tokenSet (className (nshell n))"

definition classListAdd :: "string list \<Rightarrow> node \<Rightarrow> exn + node" where
  "classListAdd ts n =
     (if \<not> isElement n then Inl TypeError
      else (case validateTokens ts of
              Some e \<Rightarrow> Inl e
            | None \<Rightarrow> Inr (setClassName (joinSp (foldl appendNew (classList n) ts)) n)))"

section \<open>The engine\<close>

text \<open>Sequencing with early exit: an exception ends the run and keeps the state it left.\<close>

definition hostStep :: "(node \<Rightarrow> exn + node) \<Rightarrow> world \<Rightarrow> outcome" where
  "hostStep f w = (case f (el w) of Inl e \<Rightarrow> Inl (e, w) | Inr n \<Rightarrow> Inr (w\<lparr>el := n\<rparr>))"

definition withString :: "(exn + string) \<Rightarrow> world \<Rightarrow> (string \<Rightarrow> world \<Rightarrow> outcome) \<Rightarrow> outcome" where
  "withString r w k = (case r of Inl e \<Rightarrow> Inl (e, w) | Inr s \<Rightarrow> k s w)"

fun forEachW :: "('a \<Rightarrow> world \<Rightarrow> outcome) \<Rightarrow> 'a list \<Rightarrow> world \<Rightarrow> outcome" where
  "forEachW f [] w = Inr w"
| "forEachW f (x # xs) w = (case f x w of Inl e \<Rightarrow> Inl e | Inr w' \<Rightarrow> forEachW f xs w')"

fun coerceAll :: "env \<Rightarrow> jsval list \<Rightarrow> exn + string list" where
  "coerceAll env [] = Inr []"
| "coerceAll env (x # xs) =
     (case toStringJS env x of
        Inl e \<Rightarrow> Inl e
      | Inr s \<Rightarrow> (case coerceAll env xs of Inl e \<Rightarrow> Inl e | Inr ss \<Rightarrow> Inr (s # ss)))"

text \<open>
  A call of a user function with the node under construction. The call is recorded
  with the node as it was handed over.
\<close>

definition callHook :: "env \<Rightarrow> role \<Rightarrow> fid \<Rightarrow> jsval \<Rightarrow> world \<Rightarrow> outcome" where
  "callHook env r f this w =
     (let w' = \<lparr>el = fst (hook env f this (el w)),
                trace = trace w @ [Call r f this (Some (el w))]\<rparr>
      in case snd (hook env f this (el w)) of None \<Rightarrow> Inr w' | Some e \<Rightarrow> Inl (e, w'))"

subsection \<open>addProps\<close>

text \<open>
  One round of the loop \<open>for (const key in props)\<close>, with \<open>v\<close> the value of \<open>props[key]\<close>.
  On a node that is not an element there is no class list, style object or
  custom-data map and no \<open>setAttribute\<close>: using them raises \<open>TypeError\<close>.
\<close>

definition applyKey :: "env \<Rightarrow> string \<times> jsval \<Rightarrow> world \<Rightarrow> outcome" where
  "applyKey env kv w =
     (let key = fst kv; v = snd kv in
      if key = ''class'' then
        (case v of
           VArr xs ps \<Rightarrow>
             if isElement (el w) then
               (case coerceAll env xs of
                  Inl e \<Rightarrow> Inl (e, w)
                | Inr ts \<Rightarrow> hostStep (classListAdd ts) w)
             else Inl (TypeError, w)
         | _ \<Rightarrow>
             if \<not> isNullish v then hostStep (assign env ''className'' v) w
             else Inr w)
      else if key = ''for'' then hostStep (assign env ''htmlFor'' v) w
      else if key = ''tabindex'' then hostStep (assign env ''tabIndex'' v) w
      else if key = ''style'' then
        forEachW (\<lambda>rv. hostStep (assignStyle (fst rv) (snd rv))) (forIn v) w
      else if key = ''dataset'' then
        forEachW (\<lambda>dv w. if isElement (el w)
                          then withString (toStringJS env (snd dv)) w
                                 (\<lambda>s w. Inr (w\<lparr>el := setDataset (fst dv) s (el w)\<rparr>))
                          else Inl (TypeError, w)) (forIn v) w
      else if key = ''role'' then
        (if isElement (el w)
         then withString (toStringJS env v) w (\<lambda>s. hostStep (setAttribute ''role'' s))
         else Inl (TypeError, w))
      else if key = ''aria'' then
        forEachW (\<lambda>av w. if isElement (el w)
                          then withString (toStringJS env (snd av)) w
                                 (\<lambda>s. hostStep (setAttribute (''aria-'' @ fst av) s))
                          else Inl (TypeError, w)) (forIn v) w
      else hostStep (assign env key v) w)"

definition addProps :: "env \<Rightarrow> jsval \<Rightarrow> world \<Rightarrow> outcome" where
  "addProps env props w = forEachW (applyKey env) (forIn props) w"

subsection \<open>addChildren\<close>

text \<open>
  A call \<open>children.toElement()\<close> or \<open>children.toString()\<close>. A user function is run
  through the environment and recorded; the built-in \<open>toString\<close> gives the fixed text of
  the value. (Only \<open>toString\<close> and \<open>valueOf\<close> can be built in, and the engine never calls
  \<open>valueOf\<close>.)
\<close>

definition builtinToString :: "env \<Rightarrow> jsval \<Rightarrow> exn + string" where
  "builtinToString env v =
     (case v of
        VArr xs ps \<Rightarrow> joinElems env xs
      | VFun f \<Rightarrow> Inr (fsource env f)
      | VObj p fs hs \<Rightarrow> Inr (objectToString env v)
      | VNode n \<Rightarrow> Inr (objectToString env v)
      | _ \<Rightarrow> (case primToString v of Some s \<Rightarrow> Inr s | None \<Rightarrow> Inl TypeError))"

definition invoke :: "env \<Rightarrow> role \<Rightarrow> callee \<Rightarrow> jsval \<Rightarrow> world
    \<Rightarrow> (jsval \<Rightarrow> world \<Rightarrow> outcome) \<Rightarrow> outcome" where
  "invoke env r c this w k =
     (case c of
        User f \<Rightarrow>
          (let w' = w\<lparr>trace := trace w @ [Call r f this None]\<rparr>
           in case produce env f this of Inl e \<Rightarrow> Inl (e, w') | Inr v \<Rightarrow> k v w')
      | Native \<Rightarrow>
          (case builtinToString env this of Inl e \<Rightarrow> Inl (e, w) | Inr s \<Rightarrow> k (VStr s) w))"

text \<open>The two hook statements around the dispatch.\<close>

definition beforeAppend :: "env \<Rightarrow> jsval \<Rightarrow> world \<Rightarrow> outcome" where
  "beforeAppend env children w =
     (if truthy children then
        (case methodOf children ''onbeforeappend'' of
           Some (User f) \<Rightarrow> callHook env BeforeAppend f children w
         | _ \<Rightarrow> Inr w)
      else Inr w)"

definition afterAppend :: "env \<Rightarrow> jsval \<Rightarrow> world \<Rightarrow> outcome" where
  "afterAppend env children w =
     (if truthy children then
        (case methodOf children ''onappend'' of
           Some (User f) \<Rightarrow> callHook env AfterAppend f children w
         | _ \<Rightarrow> Inr w)
      else Inr w)"

text \<open>The branches of the dispatch for a value that is not an array.\<close>

definition appendOne :: "env \<Rightarrow> jsval \<Rightarrow> world \<Rightarrow> outcome" where
  "appendOne env children w =
     (case children of
        VNode n \<Rightarrow> hostStep (appendChild n) w
      | _ \<Rightarrow>
          if isNullish children then
            withString (concatEmpty env children) w (\<lambda>s. hostStep (appendChild (createComment s)))
          else
            (case methodOf children ''toElement'' of
               Some c \<Rightarrow> invoke env ToElement c children w (\<lambda>r. hostStep (appendValue r))
             | None \<Rightarrow>
                 (case methodOf children ''toString'' of
                    Some c \<Rightarrow>
                      invoke env ToStringCall c children w
                        (\<lambda>r w. withString (toStringJS env r) w
                                  (\<lambda>s. hostStep (appendChild (createTextNode s))))
                  | None \<Rightarrow>
                      withString (concatEmpty env children) w
                        (\<lambda>s. hostStep (appendChild (createTextNode s))))))"

fun addChildren :: "env \<Rightarrow> jsval \<Rightarrow> world \<Rightarrow> outcome"
  and addEach :: "env \<Rightarrow> jsval list \<Rightarrow> world \<Rightarrow> outcome" where
  "addChildren env children w =
     (case beforeAppend env children w of
        Inl x \<Rightarrow> Inl x
      | Inr w1 \<Rightarrow>
          (case (case children of
                   VArr xs ps \<Rightarrow> addEach env xs w1
                 | _ \<Rightarrow> appendOne env children w1) of
             Inl x \<Rightarrow> Inl x
           | Inr w2 \<Rightarrow> afterAppend env children w2))"
| "addEach env [] w = Inr w"
| "addEach env (child # rest) w =
     (case addChildren env child w of
        Inl x \<Rightarrow> Inl x
      | Inr w' \<Rightarrow> addEach env rest w')"

declare addChildren.simps [simp del]

subsection \<open>createElement\<close>

text \<open>One round of the loop over \<open>args\<close>.\<close>

definition applyArg :: "env \<Rightarrow> jsval \<Rightarrow> world \<Rightarrow> outcome" where
  "applyArg env arg w =
     (if objectToString env arg = ''[object Object]'' then addProps env arg w
      else (case arg of
              VFun f \<Rightarrow> callHook env CreateHook f VUndefined w
            | _ \<Rightarrow> addChildren env arg w))"

text \<open>
  \<open>createElement(tag, ...args)\<close>. When the host refuses the tag there is no node at
  all; any later exception leaves the node as far as it was built.
\<close>

definition createElement :: "env \<Rightarrow> string \<Rightarrow> jsval list \<Rightarrow> (exn \<times> world option) + world" where
  "createElement env tag args =
     (case documentCreateElement tag of
        Inl e \<Rightarrow> Inl (e, None)
      | Inr n \<Rightarrow>
          (case forEachW (applyArg env) args \<lparr>el = n, trace = []\<rparr> of
             Inl (e, w) \<Rightarrow> Inl (e, Some w)
           | Inr w \<Rightarrow> Inr w))"

section \<open>Notions used to state the properties\<close>

text \<open>The leaves of a nested sequence, left to right, depth first.\<close>

fun flatten :: "jsval \<Rightarrow> jsval list"
  and flattenAll :: "jsval list \<Rightarrow> jsval list" where
  "flatten (VArr xs ps) = flattenAll xs"
| "flatten v = [v]"
| "flattenAll [] = []"
| "flattenAll (x # xs) = flatten x @ flattenAll xs"

text \<open>Whether a value exposes an append hook, and whether any array inside it does.\<close>

definition hasHook :: "jsval \<Rightarrow> bool" where
  "hasHook v = (methodOf v ''onbeforeappend'' \<noteq> None \<or> methodOf v ''onappend'' \<noteq> None)"

fun arrayHooks :: "jsval \<Rightarrow> bool"
  and arrayHooksAny :: "jsval list \<Rightarrow> bool" where
  "arrayHooks (VArr xs ps) = (hasHook (VArr xs ps) \<or> arrayHooksAny xs)"
| "arrayHooks v = False"
| "arrayHooksAny [] = False"
| "arrayHooksAny (x # xs) = (arrayHooks x \<or> arrayHooksAny xs)"

text \<open>The recorded append-hook calls whose receiver is the value \<open>v\<close> itself.\<close>

fun isOwnHookCall :: "jsval \<Rightarrow> event \<Rightarrow> bool" where
  "isOwnHookCall v (Call r f this n) = (this = v \<and> (r = BeforeAppend \<or> r = AfterAppend))"

fun receiver :: "event \<Rightarrow> jsval" where
  "receiver (Call r f this n) = this"

definition ownHookCalls :: "jsval \<Rightarrow> event list \<Rightarrow> event list" where
  "ownHookCalls v evs = filter (isOwnHookCall v) evs"

text \<open>
  The record of the call of the append hook \<open>name\<close> of \<open>v\<close> with the node \<open>n\<close>: one call when
  \<open>v\<close> has a function under that name, nothing otherwise.
\<close>

definition hookCall :: "role \<Rightarrow> string \<Rightarrow> jsval \<Rightarrow> node \<Rightarrow> event list" where
  "hookCall r name v n =
     (case methodOf v name of Some (User f) \<Rightarrow> [Call r f v (Some n)] | _ \<Rightarrow> [])"

text \<open>
  \<open>around env v step\<close>: the step \<open>step\<close> between the two hook statements of \<open>addChildren\<close>
  for the value \<open>v\<close>.
\<close>

definition around :: "env \<Rightarrow> jsval \<Rightarrow> (world \<Rightarrow> outcome) \<Rightarrow> world \<Rightarrow> outcome" where
  "around env v step w =
     (case beforeAppend env v w of
        Inl x \<Rightarrow> Inl x
      | Inr w1 \<Rightarrow> (case step w1 of Inl x \<Rightarrow> Inl x | Inr w2 \<Rightarrow> afterAppend env v w2))"

text \<open>
  The node that a child value which is not an array stands for, in the words of the
  description of the children: a node stands for itself; \<open>null\<close> and \<open>undefined\<close> for a
  comment with that word; a value with \<open>toElement\<close> for the node that the method returns;
  otherwise a value with \<open>toString\<close> for a text node of the string that the method gives;
  any other value for a text node of its string form. There is none when the method
  or the coercion raises or \<open>toElement\<close> returns no node.
\<close>

definition producedNode :: "env \<Rightarrow> jsval \<Rightarrow> node option" where
  "producedNode env v =
     (case methodOf v ''toElement'' of
        Some (User f) \<Rightarrow> (case produce env f v of Inr (VNode c) \<Rightarrow> Some c | _ \<Rightarrow> None)
      | Some Native \<Rightarrow> None
      | None \<Rightarrow>
          (case methodOf v ''toString'' of
             Some (User f) \<Rightarrow>
               (case produce env f v of
                  Inl e \<Rightarrow> None
                | Inr r \<Rightarrow>
                    (case toStringJS env r of Inl e \<Rightarrow> None | Inr s \<Rightarrow> Some (createTextNode s)))
           | Some Native \<Rightarrow>
               (case builtinToString env v of Inl e \<Rightarrow> None | Inr s \<Rightarrow> Some (createTextNode s))
           | None \<Rightarrow>
               (case concatEmpty env v of Inl e \<Rightarrow> None | Inr s \<Rightarrow> Some (createTextNode s))))"

fun contentNode :: "env \<Rightarrow> jsval \<Rightarrow> node option" where
  "contentNode env (VNode c) = Some c"
| "contentNode env VNull = Some (createComment ''null'')"
| "contentNode env VUndefined = Some (createComment ''undefined'')"
| "contentNode env (VArr xs ps) = None"
| "contentNode env v = producedNode env v"

text \<open>
  The property that a key of a bag is assigned to, and whether a property of a node is
  an ordinary one: no accessor of the host behind it.
\<close>

definition writes :: "string \<Rightarrow> string" where
  "writes key =
     (if key = ''for'' then ''htmlFor''
      else if key = ''tabindex'' then ''tabIndex''
      else if key = ''class'' then ''className''
      else key)"

definition ordinary :: "env \<Rightarrow> node \<Rightarrow> string \<Rightarrow> bool" where
  "ordinary env n name =
     (accessor env (kind n) name = None \<and> \<not> (name = ''className'' \<and> isElement n))"

text \<open>The values whose \<open>Object.prototype.toString\<close> tag is \<open>[object Object]\<close>.\<close>

fun isObjectObject :: "jsval \<Rightarrow> bool" where
  "isObjectObject (VObj p fs hs) = True"
| "isObjectObject _ = False"

fun isNodeValue :: "jsval \<Rightarrow> bool" where
  "isNodeValue (VNode n) = True"
| "isNodeValue _ = False"

text \<open>The state in which a run ended, whether it returned or raised.\<close>

fun finalWorld :: "outcome \<Rightarrow> world" where
  "finalWorld (Inl (e, w)) = w"
| "finalWorld (Inr w) = w"

text \<open>The values that a \<open>for ... in\<close> loop has nothing to visit in.\<close>

fun keyless :: "jsval \<Rightarrow> bool" where
  "keyless VUndefined = True"
| "keyless VNull = True"
| "keyless (VBool b) = True"
| "keyless (VNum i) = True"
| "keyless (VFun f) = True"
| "keyless (VStr s) = (s = [])"
| "keyless (VArr xs ps) = (xs = [] \<and> ps = [])"
| "keyless _ = False"

text \<open>
  The child values whose processing runs no user code: primitives, functions, nodes
  and objects without append hooks, the objects moreover with a prototype and without
  \<open>toElement\<close>, \<open>toString\<close> or \<open>valueOf\<close> of their own, and arrays of such values without
  append hooks. \<open>leafNode\<close> is the node that such a value, not an array, becomes.
\<close>

fun plainChild :: "jsval \<Rightarrow> bool"
  and plainChildren :: "jsval list \<Rightarrow> bool" where
  "plainChild (VArr xs ps) = (\<not> hasHook (VArr xs ps) \<and> plainChildren xs)"
| "plainChild (VObj p fs hs) =
     (p \<noteq> NullProto \<and> \<not> hasHook (VObj p fs hs)
      \<and> getProp (VObj p fs hs) ''toElement'' = None
      \<and> getProp (VObj p fs hs) ''toString'' = None
      \<and> getProp (VObj p fs hs) ''valueOf'' = None)"
| "plainChild (VNode n) = (\<not> hasHook (VNode n))"
| "plainChild v = True"
| "plainChildren [] = True"
| "plainChildren (x # xs) = (plainChild x \<and> plainChildren xs)"

fun leafNode :: "env \<Rightarrow> jsval \<Rightarrow> node" where
  "leafNode env (VNode n) = n"
| "leafNode env VNull = createComment ''null''"
| "leafNode env VUndefined = createComment ''undefined''"
| "leafNode env v = createTextNode (case builtinToString env v of Inr s \<Rightarrow> s | Inl e \<Rightarrow> [])"

text \<open>The keys that \<open>addProps\<close> treats specially.\<close>

definition specialKeys :: "string list" where
  "specialKeys = [''class'', ''for'', ''tabindex'', ''style'', ''dataset'', ''role'', ''aria'']"

text \<open>
  Fixtures: an environment in which function 0 raises as a hook, function 8 marks the
  node it is given, function 1 produces a \<open>span\<close> element, function 2 produces a string,
  function 4 raises as a producer and every other call does nothing, and in which the
  host has a getter only behind \<open>tagName\<close> and a setter behind \<open>textContent\<close> that replaces
  the children by one text node; a bare \<open>div\<close>; nodes with identities, one of them with an
  append hook, one holding another.
\<close>

definition spanNode :: node where
  "spanNode = Node (Some 1) (ElementNode ''span'') emptyShell [] [] []"

definition paraNode :: node where
  "paraNode = Node (Some 2) (ElementNode ''p'') emptyShell [] [] []"

definition paraWithSpan :: node where
  "paraWithSpan = Node (Some 2) (ElementNode ''p'') emptyShell [] [] [spanNode]"

definition demoEnv :: env where
  "demoEnv =
     \<lparr>hook = (\<lambda>f this n. (if f = 8 then setProperty ''seen'' (VBool True) n else n,
                           if f = 0 then Some (Thrown (VStr ''boom'')) else None)),
      produce = (\<lambda>f this. if f = 1 then Inr (VNode spanNode)
                           else if f = 2 then Inr (VStr ''Hello, test!'')
                           else if f = 4 then Inl (Thrown (VStr ''bad''))
                           else Inr VUndefined),
      fsource = (\<lambda>f. ''function () {}''),
      iface = (\<lambda>tag. (if tag = ''div'' then ''Div'' else if tag = ''span'' then ''Span'' else [])),
      accessor = (\<lambda>k name.
         if name = ''tagName'' then Some (\<lambda>v n. Inl TypeError)
         else if name = ''textContent''
         then Some (\<lambda>v n. Inr (Node (nref n) (kind n) (nshell n) (jsprops n) (style n)
                                 [createTextNode (case primToString v of Some s \<Rightarrow> s | None \<Rightarrow> [])]))
         else None)\<rparr>"

definition hookedNode :: node where
  "hookedNode = Node (Some 3) (ElementNode ''span'') emptyShell [(''onappend'', VFun 7)] [] []"

definition divNode :: node where
  "divNode = Node None (ElementNode ''div'') emptyShell [] [] []"

definition divWorld :: world where
  "divWorld = \<lparr>el = divNode, trace = []\<rparr>"

section \<open>Properties\<close>

subsection \<open>Sequencing\<close>

lemma forEachW_append:
  "forEachW f (xs @ ys) w =
     (case forEachW f xs w of Inl x \<Rightarrow> Inl x | Inr w' \<Rightarrow> forEachW f ys w')"
  by (induction xs arbitrary: w) (auto split: sum.splits)

lemma addEach_forEachW: "addEach env xs w = forEachW (addChildren env) xs w"
  by (induction xs arbitrary: w) (simp_all split: sum.splits)



text \<open>The definitions that a run on a concrete input unfolds.\<close>

lemmas run_defs = createElement_def documentCreateElement_def validElementName_def isAsciiAlpha_def
  isAsciiWhitespace_def applyArg_def objectToString_def addProps_def applyKey_def callHook_def
  beforeAppend_def afterAppend_def appendOne_def methodOf_def hostStep_def withString_def
  appendChild_def attach_def createTextNode_def createComment_def concatEmpty_def invoke_def
  builtinToString_def setProperty_def assign_def assignStyle_def isIndexKey_def emptyShell_def
  demoEnv_def divNode_def divWorld_def spanNode_def paraNode_def paraWithSpan_def hookedNode_def
  Let_def readKey_def addChildren.simps

subsection \<open>The argument classifier\<close>

lemma objectToString_iff: "(objectToString env v = ''[object Object]'') = isObjectObject v"
  by (cases v) (auto simp: objectToString_def split: nkind.splits)

lemma applyArg_object: "isObjectObject a \<Longrightarrow> applyArg env a w = addProps env a w"
  by (simp add: applyArg_def objectToString_iff)

lemma applyArg_function: "applyArg env (VFun f) w = callHook env CreateHook f VUndefined w"
  by (simp add: applyArg_def objectToString_iff)

lemma applyArg_child:
  "\<not> isObjectObject a \<Longrightarrow> \<not> isFunction a \<Longrightarrow> applyArg env a w = addChildren env a w"
  by (cases a) (simp_all add: applyArg_def objectToString_iff)

lemma createElement_snoc:
  "createElement env tag (args @ [arg]) =
     (case createElement env tag args of
        Inl x \<Rightarrow> Inl x
      | Inr w \<Rightarrow> (case applyArg env arg w of Inl (e, w') \<Rightarrow> Inl (e, Some w') | Inr w' \<Rightarrow> Inr w'))"
  by (simp add: createElement_def forEachW_append split: sum.splits prod.splits)

text \<open>
  Claim C1. \<open>createElement\<close> starts from the bare node that the host makes for the tag
  and processes its arguments strictly from left to right: the call with one more
  argument at the end is the call without it, followed by that argument's step on the
  node as the earlier arguments left it. The step is chosen by the shape of the
  argument. A value whose tag is \<open>[object Object]\<close> (the source's test for a property
  bag) goes to \<open>addProps\<close>. Otherwise a function is called exactly once with the node
  under construction: the record of calls grows by that one call, and the result of
  the step is the node as the call left it, whatever the function returned. Every
  other value goes to \<open>addChildren\<close>. The call returns the node with all the mutations.
\<close>

theorem createElement_dispatch:
  "createElement env tag [] =
     (case documentCreateElement tag of
        Inl e \<Rightarrow> Inl (e, None)
      | Inr n \<Rightarrow> Inr \<lparr>el = n, trace = []\<rparr>)
   \<and> createElement env tag (args @ [arg]) =
     (case createElement env tag args of
        Inl x \<Rightarrow> Inl x
      | Inr w \<Rightarrow> (case applyArg env arg w of Inl (e, w') \<Rightarrow> Inl (e, Some w') | Inr w' \<Rightarrow> Inr w'))
   \<and> (isObjectObject arg \<longrightarrow> applyArg env arg w = addProps env arg w)
   \<and> (arg = VFun f \<longrightarrow>
        applyArg env arg w =
          (case snd (hook env f VUndefined (el w)) of
             None \<Rightarrow> Inr \<lparr>el = fst (hook env f VUndefined (el w)),
                          trace = trace w @ [Call CreateHook f VUndefined (Some (el w))]\<rparr>
           | Some e \<Rightarrow> Inl (e, \<lparr>el = fst (hook env f VUndefined (el w)),
                               trace = trace w @ [Call CreateHook f VUndefined (Some (el w))]\<rparr>)))
   \<and> (\<not> isObjectObject arg \<and> \<not> isFunction arg \<longrightarrow> applyArg env arg w = addChildren env arg w)"
  using createElement_snoc applyArg_object applyArg_child
  by (simp add: createElement_def applyArg_function callHook_def Let_def
           split: sum.splits)

theorem createElement_dispatch_witness:
  "\<not> isObjectObject (VNode spanNode) \<and> \<not> isFunction (VNode spanNode)
   \<and> applyArg demoEnv (VNode spanNode) divWorld = addChildren demoEnv (VNode spanNode) divWorld
   \<and> createElement demoEnv ''div''
        ([VFun 3, VStr ''Hello, world!'', VObj PlainProto [(''id'', VStr ''side'')] []]
         @ [VNode spanNode]) =
      Inr \<lparr>el = Node None (ElementNode ''div'') emptyShell [(''id'', VStr ''side'')] []
                 [Node None (TextNode ''Hello, world!'') emptyShell [] [] [], spanNode],
            trace = [Call CreateHook 3 VUndefined (Some divNode)]\<rparr>"
proof -
  have a: "createElement demoEnv ''div''
        [VFun 3, VStr ''Hello, world!'', VObj PlainProto [(''id'', VStr ''side'')] []] =
      Inr \<lparr>el = Node None (ElementNode ''div'') emptyShell [(''id'', VStr ''side'')] []
                 [Node None (TextNode ''Hello, world!'') emptyShell [] [] []],
            trace = [Call CreateHook 3 VUndefined (Some divNode)]\<rparr>"
    by (simp add: run_defs)
  have b: "addChildren demoEnv (VNode spanNode)
        \<lparr>el = Node None (ElementNode ''div'') emptyShell [(''id'', VStr ''side'')] []
                 [Node None (TextNode ''Hello, world!'') emptyShell [] [] []],
          trace = [Call CreateHook 3 VUndefined (Some divNode)]\<rparr> =
      Inr \<lparr>el = Node None (ElementNode ''div'') emptyShell [(''id'', VStr ''side'')] []
                 [Node None (TextNode ''Hello, world!'') emptyShell [] [] [], spanNode],
            trace = [Call CreateHook 3 VUndefined (Some divNode)]\<rparr>"
    by (simp add: run_defs)
  have c: "\<not> isObjectObject (VNode spanNode) \<and> \<not> isFunction (VNode spanNode)" by simp
  from createElement_dispatch
         [of demoEnv "''div''"
             "[VFun 3, VStr ''Hello, world!'', VObj PlainProto [(''id'', VStr ''side'')] []]"
             "VNode spanNode"
             "\<lparr>el = Node None (ElementNode ''div'') emptyShell [(''id'', VStr ''side'')] []
                 [Node None (TextNode ''Hello, world!'') emptyShell [] [] []],
               trace = [Call CreateHook 3 VUndefined (Some divNode)]\<rparr>" 0]
       createElement_dispatch [of demoEnv "''div''" "[]" "VNode spanNode" divWorld 0] a b c
  show ?thesis by (simp)
qed

subsection \<open>The property applier\<close>

lemma forEachW_final_inv:
  "(\<And>x w. P w \<Longrightarrow> P (finalWorld (f x w))) \<Longrightarrow> P w \<Longrightarrow> P (finalWorld (forEachW f xs w))"
proof (induction xs arbitrary: w)
  case Nil
  then show ?case by simp
next
  case (Cons y ys)
  show ?case
  proof (cases "f y w")
    case (Inl z)
    with Cons.prems(1)[OF Cons.prems(2), of y] show ?thesis by simp
  next
    case (Inr w')
    with Cons.prems(1)[OF Cons.prems(2), of y] have "P w'" by simp
    from Cons.IH[OF Cons.prems(1) this] Inr show ?thesis by simp
  qed
qed

lemma hostStep_final_inv:
  assumes "\<And>n'. f (el w) = Inr n' \<Longrightarrow> Q n'" "Q (el w)"
  shows "Q (el (finalWorld (hostStep f w)))"
  using assms by (cases "f (el w)") (simp_all add: hostStep_def)

lemma hostStep_final_trace: "trace (finalWorld (hostStep f w)) = trace w"
  by (cases "f (el w)") (simp_all add: hostStep_def)

lemma withString_final_inv:
  assumes "\<And>s. P (finalWorld (k s w))" "P w"
  shows "P (finalWorld (withString r w k))"
  using assms by (cases r) (simp_all add: withString_def)

text \<open>
  What every host operation of one round of the loop preserves, the round preserves;
  the only property that the round assigns is the one its key writes.
\<close>

lemma applyKey_inv:
  assumes A: "\<And>v n n'. fst kv \<notin> set [''style'', ''dataset'', ''role'', ''aria''] \<Longrightarrow>
                 assign env (writes (fst kv)) v n = Inr n' \<Longrightarrow> Q n \<Longrightarrow> Q n'"
    and S: "\<And>r v n n'. assignStyle r v n = Inr n' \<Longrightarrow> Q n \<Longrightarrow> Q n'"
    and D: "\<And>k s n. Q n \<Longrightarrow> Q (setDataset k s n)"
    and T: "\<And>name s n n'. setAttribute name s n = Inr n' \<Longrightarrow> Q n \<Longrightarrow> Q n'"
    and C: "\<And>ts n n'. fst kv = ''class'' \<Longrightarrow> classListAdd ts n = Inr n' \<Longrightarrow> Q n \<Longrightarrow> Q n'"
    and Q: "Q (el w)"
  shows "Q (el (finalWorld (applyKey env kv w)))"
proof -
  let ?P = "\<lambda>w. Q (el w)"
  have hs: "?P (finalWorld (hostStep f u))" if "\<And>n n'. f n = Inr n' \<Longrightarrow> Q n \<Longrightarrow> Q n'" "?P u" for f u
  proof (rule hostStep_final_inv)
    fix n' assume "f (el u) = Inr n'"
    from that(1)[OF this that(2)] show "Q n'" .
  next
    show "Q (el u)" by (rule that(2))
  qed
  have st: "?P (finalWorld (forEachW (\<lambda>rv. hostStep (assignStyle (fst rv) (snd rv))) xs w))" for xs
  proof (rule forEachW_final_inv[where P = ?P])
    fix x and u :: world assume "?P u"
    have "\<And>n n'. assignStyle (fst x) (snd x) n = Inr n' \<Longrightarrow> Q n \<Longrightarrow> Q n'" by (rule S)
    from hs[OF this \<open>?P u\<close>] show "?P (finalWorld (hostStep (assignStyle (fst x) (snd x)) u))" .
  qed (rule Q)
  have da: "?P (finalWorld (forEachW (\<lambda>dv w. if isElement (el w)
                          then withString (toStringJS env (snd dv)) w
                                 (\<lambda>s w. Inr (w\<lparr>el := setDataset (fst dv) s (el w)\<rparr>))
                          else Inl (TypeError, w)) xs w))" for xs
  proof (rule forEachW_final_inv[where P = ?P])
    fix x and u :: world assume "?P u"
    then show "?P (finalWorld (if isElement (el u)
                          then withString (toStringJS env (snd x)) u
                                 (\<lambda>s w. Inr (w\<lparr>el := setDataset (fst x) s (el w)\<rparr>))
                          else Inl (TypeError, u)))"
      by (cases "toStringJS env (snd x)") (simp_all add: withString_def D)
  qed (rule Q)
  have ar: "?P (finalWorld (forEachW (\<lambda>av w. if isElement (el w)
                          then withString (toStringJS env (snd av)) w
                                 (\<lambda>s. hostStep (setAttribute (''aria-'' @ fst av) s))
                          else Inl (TypeError, w)) xs w))" for xs
  proof (rule forEachW_final_inv[where P = ?P])
    fix x and u :: world assume "?P u"
    then show "?P (finalWorld (if isElement (el u)
                          then withString (toStringJS env (snd x)) u
                                 (\<lambda>s. hostStep (setAttribute (''aria-'' @ fst x) s))
                          else Inl (TypeError, u)))"
    proof (cases "toStringJS env (snd x)")
      case (Inl e)
      with \<open>?P u\<close> show ?thesis by (simp add: withString_def)
    next
      case (Inr s)
      have "\<And>n n'. setAttribute (''aria-'' @ fst x) s n = Inr n' \<Longrightarrow> Q n \<Longrightarrow> Q n'" by (rule T)
      from hs[OF this \<open>?P u\<close>]
      have "?P (finalWorld (hostStep (setAttribute (''aria-'' @ fst x) s) u))" .
      with Inr \<open>?P u\<close> show ?thesis by (simp add: withString_def)
    qed
  qed (rule Q)
  have ro: "?P (finalWorld (withString (toStringJS env v) w (\<lambda>s. hostStep (setAttribute ''role'' s))))" for v
  proof (cases "toStringJS env v")
    case (Inl e)
    with Q show ?thesis by (simp add: withString_def)
  next
    case (Inr s)
    have "\<And>n n'. setAttribute ''role'' s n = Inr n' \<Longrightarrow> Q n \<Longrightarrow> Q n'" by (rule T)
    from hs[OF this Q]
    have "?P (finalWorld (hostStep (setAttribute ''role'' s) w))" .
    with Inr show ?thesis by (simp add: withString_def)
  qed
  have asg: "?P (finalWorld (hostStep (assign env (writes (fst kv)) v) w))"
    if k: "fst kv \<notin> set [''style'', ''dataset'', ''role'', ''aria'']" for v
  proof -
    have "\<And>n n'. assign env (writes (fst kv)) v n = Inr n' \<Longrightarrow> Q n \<Longrightarrow> Q n'" by (rule A[OF k])
    from hs[OF this Q] show ?thesis .
  qed
  have cl: "?P (finalWorld (hostStep (classListAdd ts) w))" if k: "fst kv = ''class''" for ts
  proof -
    have "\<And>n n'. classListAdd ts n = Inr n' \<Longrightarrow> Q n \<Longrightarrow> Q n'" by (rule C[OF k])
    from hs[OF this Q] show ?thesis .
  qed
  show ?thesis
  proof (cases "fst kv \<in> set specialKeys")
    case False
    then have "applyKey env kv w = hostStep (assign env (writes (fst kv)) (snd kv)) w"
      by (simp add: applyKey_def specialKeys_def writes_def)
    moreover from False have "fst kv \<notin> set [''style'', ''dataset'', ''role'', ''aria'']"
      by (simp add: specialKeys_def)
    ultimately show ?thesis using asg by simp
  next
    case True
    then consider "fst kv = ''class''" | "fst kv = ''for''" | "fst kv = ''tabindex''"
      | "fst kv = ''style''" | "fst kv = ''dataset''" | "fst kv = ''role''" | "fst kv = ''aria''"
      by (auto simp: specialKeys_def)
    then show ?thesis
    proof cases
      case 1
      then have w: "writes (fst kv) = ''className''" by (simp add: writes_def)
      from 1 have nk: "fst kv \<notin> set [''style'', ''dataset'', ''role'', ''aria'']" by simp
      note cl1 = cl[OF 1] and asg1 = asg[OF nk, unfolded w]
      show ?thesis
      proof (cases "snd kv")
        case (VArr xs ps)
        with 1 cl1 Q show ?thesis
          by (auto simp: applyKey_def split: sum.splits)
      qed (use 1 asg1 Q in \<open>simp_all add: applyKey_def\<close>)
    next
      case 2
      then have "fst kv \<notin> set [''style'', ''dataset'', ''role'', ''aria'']" by simp
      from asg[OF this, of "snd kv"] 2 show ?thesis by (simp add: applyKey_def writes_def)
    next
      case 3
      then have "fst kv \<notin> set [''style'', ''dataset'', ''role'', ''aria'']" by simp
      from asg[OF this, of "snd kv"] 3 show ?thesis by (simp add: applyKey_def writes_def)
    next
      case 4
      with st show ?thesis by (simp add: applyKey_def)
    next
      case 5
      with da show ?thesis by (simp add: applyKey_def)
    next
      case 6
      with ro Q show ?thesis by (simp add: applyKey_def)
    next
      case 7
      with ar show ?thesis by (simp add: applyKey_def)
    qed
  qed
qed

lemma withString_hostStep_trace:
  "trace u = t \<Longrightarrow> trace (finalWorld (withString r u (\<lambda>s. hostStep (g s)))) = t"
  by (cases r) (simp_all add: withString_def hostStep_final_trace)

lemma applyKey_trace: "trace (finalWorld (applyKey env kv w)) = trace w"
proof -
  let ?P = "\<lambda>u :: world. trace u = trace w"
  have st: "?P (finalWorld (forEachW (\<lambda>rv. hostStep (assignStyle (fst rv) (snd rv))) xs w))" for xs
    by (rule forEachW_final_inv[where P = ?P]) (simp_all add: hostStep_final_trace)
  have da: "?P (finalWorld (forEachW (\<lambda>dv w. if isElement (el w)
                          then withString (toStringJS env (snd dv)) w
                                 (\<lambda>s w. Inr (w\<lparr>el := setDataset (fst dv) s (el w)\<rparr>))
                          else Inl (TypeError, w)) xs w))" for xs
  proof (rule forEachW_final_inv[where P = ?P])
    fix x and u :: world assume "?P u"
    then show "?P (finalWorld (if isElement (el u)
                          then withString (toStringJS env (snd x)) u
                                 (\<lambda>s w. Inr (w\<lparr>el := setDataset (fst x) s (el w)\<rparr>))
                          else Inl (TypeError, u)))"
      by (cases "toStringJS env (snd x)") (simp_all add: withString_def)
  qed simp
  have ar: "?P (finalWorld (forEachW (\<lambda>av w. if isElement (el w)
                          then withString (toStringJS env (snd av)) w
                                 (\<lambda>s. hostStep (setAttribute (''aria-'' @ fst av) s))
                          else Inl (TypeError, w)) xs w))" for xs
  proof (rule forEachW_final_inv[where P = ?P])
    fix x and u :: world assume "?P u"
    then show "?P (finalWorld (if isElement (el u)
                          then withString (toStringJS env (snd x)) u
                                 (\<lambda>s. hostStep (setAttribute (''aria-'' @ fst x) s))
                          else Inl (TypeError, u)))"
      by (simp add: withString_hostStep_trace)
  qed simp
  show ?thesis
  proof (cases "fst kv \<in> set specialKeys")
    case False
    then have "applyKey env kv w = hostStep (assign env (fst kv) (snd kv)) w"
      by (simp add: applyKey_def specialKeys_def)
    then show ?thesis by (simp add: hostStep_final_trace)
  next
    case True
    then consider "fst kv = ''class''" | "fst kv = ''for''" | "fst kv = ''tabindex''"
      | "fst kv = ''style''" | "fst kv = ''dataset''" | "fst kv = ''role''" | "fst kv = ''aria''"
      by (auto simp: specialKeys_def)
    then show ?thesis
    proof cases
      case 1
      show ?thesis
      proof (cases "snd kv")
        case (VArr xs ps)
        with 1 show ?thesis
          by (cases "coerceAll env xs") (simp_all add: applyKey_def hostStep_final_trace)
      qed (use 1 in \<open>simp_all add: applyKey_def hostStep_final_trace\<close>)
    next
      case 2
      then show ?thesis by (simp add: applyKey_def hostStep_final_trace)
    next
      case 3
      then show ?thesis by (simp add: applyKey_def hostStep_final_trace)
    next
      case 4
      with st show ?thesis by (simp add: applyKey_def)
    next
      case 5
      with da show ?thesis by (simp add: applyKey_def)
    next
      case 6
      then show ?thesis by (simp add: applyKey_def withString_hostStep_trace)
    next
      case 7
      with ar show ?thesis by (simp add: applyKey_def)
    qed
  qed
qed

lemma addProps_trace: "trace (finalWorld (addProps env v w)) = trace w"
  unfolding addProps_def
  by (rule forEachW_final_inv[where P = "\<lambda>u. trace u = trace w"]) (simp_all add: applyKey_trace)

text \<open>The kind and the identity of the node never change.\<close>

lemma setters_kind [simp]:
  "kind (setProperty k v n) = kind n" "kind (setStyle k v n) = kind n"
  "kind (withShell g n) = kind n" "kind (setDataset k s n) = kind n"
  "kind (setClassName s n) = kind n"
  by (simp_all add: setProperty_def setStyle_def withShell_def setDataset_def setClassName_def)

lemma setters_jsprops [simp]:
  "jsprops (setProperty k v n) = AList.update k v (jsprops n)"
  "jsprops (setStyle k v n) = jsprops n"
  "jsprops (withShell g n) = jsprops n"
  "jsprops (setDataset k s n) = jsprops n"
  "jsprops (setClassName s n) = jsprops n"
  by (simp_all add: setProperty_def setStyle_def withShell_def setDataset_def setClassName_def)

lemma setters_childNodes [simp]:
  "childNodes (setProperty k v n) = childNodes n"
  "childNodes (setStyle k v n) = childNodes n"
  "childNodes (withShell g n) = childNodes n"
  "childNodes (setDataset k s n) = childNodes n"
  "childNodes (setClassName s n) = childNodes n"
  by (simp_all add: setProperty_def setStyle_def withShell_def setDataset_def setClassName_def)

lemma isElement_kind: "isElement n = (case kind n of ElementNode tag \<Rightarrow> True | _ \<Rightarrow> False)"
  by (cases n; cases "kind n") simp_all

lemma assign_kind: "assign env key v n = Inr n' \<Longrightarrow> kind n' = kind n"
  by (auto simp: assign_def split: if_splits sum.splits option.splits)

lemma assignStyle_kind: "assignStyle r v n = Inr n' \<Longrightarrow> kind n' = kind n"
  by (auto simp: assignStyle_def split: if_splits)

lemma setAttribute_kind: "setAttribute name s n = Inr n' \<Longrightarrow> kind n' = kind n"
  by (auto simp: setAttribute_def split: if_splits)

lemma classListAdd_kind: "classListAdd ts n = Inr n' \<Longrightarrow> kind n' = kind n"
  by (auto simp: classListAdd_def split: if_splits option.splits)

lemma applyKey_kind: "kind (el (finalWorld (applyKey env kv w))) = kind (el w)"
  by (rule applyKey_inv[where Q = "\<lambda>n. kind n = kind (el w)"])
     (simp_all add: assign_kind assignStyle_kind setAttribute_kind classListAdd_kind)

lemma ordinary_kind: "kind n = kind n' \<Longrightarrow> ordinary env n name = ordinary env n' name"
  by (simp add: ordinary_def isElement_kind)

text \<open>An assignment to another name leaves a property as it is.\<close>

lemma assign_other:
  "assign env name v n = Inr n' \<Longrightarrow> name \<noteq> k \<Longrightarrow> map_of (jsprops n') k = map_of (jsprops n) k"
  by (auto simp: assign_def update_conv' split: if_splits sum.splits option.splits)

lemma assign_ordinary:
  "ordinary env n k \<Longrightarrow> assign env k v n = Inr (setProperty k v n)"
  by (auto simp: assign_def ordinary_def)

lemma assignStyle_jsprops: "assignStyle r v n = Inr n' \<Longrightarrow> jsprops n' = jsprops n"
  by (auto simp: assignStyle_def split: if_splits)

lemma setAttribute_jsprops: "setAttribute name s n = Inr n' \<Longrightarrow> jsprops n' = jsprops n"
  by (auto simp: setAttribute_def split: if_splits)

lemma classListAdd_jsprops: "classListAdd ts n = Inr n' \<Longrightarrow> jsprops n' = jsprops n"
  by (auto simp: classListAdd_def split: if_splits option.splits)

lemma applyKey_other_key:
  assumes "writes (fst kv) \<noteq> k"
  shows "map_of (jsprops (el (finalWorld (applyKey env kv w)))) k = map_of (jsprops (el w)) k"
  by (rule applyKey_inv[where Q = "\<lambda>n. map_of (jsprops n) k = map_of (jsprops (el w)) k"])
     (simp_all add: assign_other[OF _ assms] assignStyle_jsprops setAttribute_jsprops
        classListAdd_jsprops)

lemma applyKey_general:
  "k \<notin> set specialKeys \<Longrightarrow> applyKey env (k, v) w = hostStep (assign env k v) w"
  by (simp add: applyKey_def specialKeys_def)

lemma addProps_kind: "kind (el (finalWorld (addProps env v w))) = kind (el w)"
  unfolding addProps_def
  by (rule forEachW_final_inv[where P = "\<lambda>u. kind (el u) = kind (el w)"])
     (simp_all add: applyKey_kind)

lemma last_write_loop:
  assumes "k \<notin> set specialKeys"
  shows "ordinary env (el w) k \<Longrightarrow>
         \<forall>kv \<in> set es. writes (fst kv) = k \<longrightarrow> kv = (k, v) \<Longrightarrow>
         forEachW (applyKey env) es w = Inr w' \<Longrightarrow>
         k \<in> fst ` set es \<or> map_of (jsprops (el w)) k = Some v \<Longrightarrow>
         map_of (jsprops (el w')) k = Some v"
proof (induction es arbitrary: w)
  case Nil
  then show ?case by simp
next
  case (Cons kv es)
  from Cons.prems(3) obtain w1 where s1: "applyKey env kv w = Inr w1"
    and s2: "forEachW (applyKey env) es w1 = Inr w'"
    by (auto split: sum.splits)
  from applyKey_kind[of env kv w] s1 have "kind (el w1) = kind (el w)" by simp
  with Cons.prems(1) have o1: "ordinary env (el w1) k" by (simp add: ordinary_kind[of "el w1" "el w"])
  have vals: "\<forall>kv \<in> set es. writes (fst kv) = k \<longrightarrow> kv = (k, v)" using Cons.prems(2) by simp
  show ?case
  proof (cases "writes (fst kv) = k")
    case True
    with Cons.prems(2) have kv: "kv = (k, v)" by simp
    from s1 kv applyKey_general[OF assms, of env v w] assign_ordinary[OF Cons.prems(1), of v]
    have "w1 = w\<lparr>el := setProperty k v (el w)\<rparr>" by (simp add: hostStep_def)
    then have "map_of (jsprops (el w1)) k = Some v" by (simp add: update_conv')
    with Cons.IH[OF o1 vals s2] show ?thesis by simp
  next
    case False
    from applyKey_other_key[OF False, of env w] s1
    have keep: "map_of (jsprops (el w1)) k = map_of (jsprops (el w)) k" by simp
    from False have "fst kv \<noteq> k" using assms by (auto simp: writes_def specialKeys_def)
    with Cons.prems(4) have "k \<in> fst ` set es \<or> map_of (jsprops (el w)) k = Some v" by auto
    with keep have "k \<in> fst ` set es \<or> map_of (jsprops (el w1)) k = Some v" by simp
    from Cons.IH[OF o1 vals s2 this] show ?thesis .
  qed
qed

lemma last_write_split:
  assumes "k \<notin> set specialKeys"
  shows "forEachW (applyKey env) (pre @ (k, v) # post) w =
     (case forEachW (applyKey env) pre w of
        Inl x \<Rightarrow> Inl x
      | Inr wa \<Rightarrow>
          (case hostStep (assign env k v) wa of
             Inl x \<Rightarrow> Inl x
           | Inr wb \<Rightarrow> forEachW (applyKey env) post wb))"
  by (simp add: forEachW_append applyKey_general[OF assms] split: sum.splits)

lemma className_setters [simp]:
  "className (nshell (setProperty k v n)) = className (nshell n)"
  "className (nshell (setStyle k v n)) = className (nshell n)"
  "className (nshell (setDataset k t n)) = className (nshell n)"
  "className (nshell (setClassName t n)) = t"
  by (simp_all add: setProperty_def setStyle_def setDataset_def setClassName_def withShell_def)

text \<open>
  A round whose key is neither \<open>class\<close> nor \<open>className\<close>, and whose assignment, if it makes
  one, has no accessor of the host behind it, leaves the \<open>class\<close> attribute as it is.
\<close>

lemma applyKey_class_attribute:
  assumes k: "fst kv \<noteq> ''class''" "fst kv \<noteq> ''className''"
    and acc: "fst kv \<notin> set [''style'', ''dataset'', ''role'', ''aria''] \<longrightarrow>
              accessor env K (writes (fst kv)) = None"
    and w: "kind (el w) = K" "className (nshell (el w)) = s"
  shows "className (nshell (el (finalWorld (applyKey env kv w)))) = s"
proof -
  let ?Q = "\<lambda>n. kind n = K \<and> className (nshell n) = s"
  from k have wr: "writes (fst kv) \<noteq> ''className''" by (simp add: writes_def)
  have "?Q (el (finalWorld (applyKey env kv w)))"
  proof (rule applyKey_inv[where Q = ?Q])
    fix v n n'
    assume "fst kv \<notin> set [''style'', ''dataset'', ''role'', ''aria'']"
      and a: "assign env (writes (fst kv)) v n = Inr n'" and q: "?Q n"
    with acc have "accessor env (kind n) (writes (fst kv)) = None" by simp
    with a wr have "n' = setProperty (writes (fst kv)) v n" by (simp add: assign_def)
    with q show "?Q n'" by simp
  next
    fix r v n n' assume "assignStyle r v n = Inr n'" "?Q n"
    then show "?Q n'" by (auto simp: assignStyle_def split: if_splits)
  next
    fix k t n assume "?Q n"
    then show "?Q (setDataset k t n)" by simp
  next
    fix name t n n' assume "setAttribute name t n = Inr n'" "?Q n"
    then show "?Q n'" by (auto simp: setAttribute_def withShell_def split: if_splits)
  next
    fix ts n n' assume "fst kv = ''class''"
    with k(1) show "?Q n'" by simp
  next
    from w show "?Q (el w)" by simp
  qed
  then show ?thesis by simp
qed

lemma class_attribute_loop:
  assumes s: "toStringJS env v = Inr s" and K: "isElement (el w0)"
  shows "kind (el w) = kind (el w0) \<Longrightarrow>
         \<forall>kv \<in> set es. fst kv \<noteq> ''class'' \<and> (fst kv = ''className'' \<longrightarrow> snd kv = v)
            \<and> (fst kv \<noteq> ''className'' \<and> fst kv \<notin> set [''style'', ''dataset'', ''role'', ''aria'']
                 \<longrightarrow> accessor env (kind (el w0)) (writes (fst kv)) = None) \<Longrightarrow>
         forEachW (applyKey env) es w = Inr w' \<Longrightarrow>
         ''className'' \<in> fst ` set es \<or> className (nshell (el w)) = s \<Longrightarrow>
         className (nshell (el w')) = s"
proof (induction es arbitrary: w)
  case Nil
  then show ?case by simp
next
  case (Cons kv es)
  from Cons.prems(3) obtain w1 where s1: "applyKey env kv w = Inr w1"
    and s2: "forEachW (applyKey env) es w1 = Inr w'"
    by (auto split: sum.splits)
  from applyKey_kind[of env kv w] s1 Cons.prems(1) have k1: "kind (el w1) = kind (el w0)" by simp
  from Cons.prems(2) have rest: "\<forall>kv \<in> set es. fst kv \<noteq> ''class'' \<and> (fst kv = ''className'' \<longrightarrow> snd kv = v)
            \<and> (fst kv \<noteq> ''className'' \<and> fst kv \<notin> set [''style'', ''dataset'', ''role'', ''aria'']
                 \<longrightarrow> accessor env (kind (el w0)) (writes (fst kv)) = None)" by simp
  show ?case
  proof (cases "fst kv = ''className''")
    case True
    with Cons.prems(2) have kv: "kv = (''className'', v)" by (cases kv) simp
    from Cons.prems(1) K have "isElement (el w)" by (simp add: isElement_kind)
    with s have "assign env ''className'' v (el w) = Inr (setClassName s (el w))"
      by (simp add: assign_def)
    with s1 kv have "w1 = w\<lparr>el := setClassName s (el w)\<rparr>"
      by (simp add: applyKey_def hostStep_def)
    then have "className (nshell (el w1)) = s" by simp
    with Cons.IH[OF k1 rest s2] show ?thesis by simp
  next
    case False
    show ?thesis
    proof (cases "''className'' \<in> fst ` set es")
      case True
      with Cons.IH[OF k1 rest s2] show ?thesis by simp
    next
      case no: False
      with False Cons.prems(4) have c: "className (nshell (el w)) = s" by auto
      from Cons.prems(2) have k: "fst kv \<noteq> ''class''"
        and acc: "fst kv \<notin> set [''style'', ''dataset'', ''role'', ''aria''] \<longrightarrow>
              accessor env (kind (el w0)) (writes (fst kv)) = None"
        using False by simp_all
      from applyKey_class_attribute[OF k False acc Cons.prems(1) c] s1
      have "className (nshell (el w1)) = s" by simp
      with Cons.IH[OF k1 rest s2] show ?thesis by simp
    qed
  qed
qed

text \<open>
  Claim C8, amended. For a key that is not one of the seven special keys, the round
  of the loop is the host's assignment \<open>el[key] = value\<close>, with the value of the bag as it
  is. When the property is an ordinary one on the node, the assignment stores the
  value and reading the name back gives it. The assignment of a bag's value to a key
  is the last assignment under that key in the run of the bag: the run is the rounds
  before it, that assignment, and the rounds after it, none of which has the key. And
  last write wins: when a bag and then an object \<open>P2\<close> are applied and both calls return,
  a key of \<open>P2\<close> that is not special, names an ordinary property of the node, and is
  written by no other key of \<open>P2\<close> (as \<open>htmlFor\<close> is by \<open>for\<close>) ends up with the value it has
  in \<open>P2\<close>. On an element the same holds for \<open>className\<close>, whose assignment makes the string
  form of the value the \<open>class\<close> attribute: when \<open>P2\<close> has the key \<open>className\<close> and not the key
  \<open>class\<close>, and no other key of \<open>P2\<close> that is assigned has an accessor of the host behind
  it, the \<open>class\<close> attribute ends up as the string form of the value in \<open>P2\<close>.
\<close>

theorem general_key_last_write:
  "(k \<notin> set specialKeys \<longrightarrow> applyKey env (k, v) w = hostStep (assign env k v) w)
   \<and> (ordinary env n k \<longrightarrow>
        assign env k v n = Inr (setProperty k v n)
        \<and> map_of (jsprops (setProperty k v n)) k = Some v)
   \<and> (k \<notin> set specialKeys \<and> map fst fs2 = ks1 @ k # ks2 \<and> k \<notin> set ks2 \<longrightarrow>
        addProps env (VObj p2 fs2 hs2) w1 =
          (case forEachW (applyKey env) (map (\<lambda>k. (k, readKey (fs2 @ hs2) k)) ks1) w1 of
             Inl x \<Rightarrow> Inl x
           | Inr wa \<Rightarrow>
               (case hostStep (assign env k (readKey (fs2 @ hs2) k)) wa of
                  Inl x \<Rightarrow> Inl x
                | Inr wb \<Rightarrow>
                    forEachW (applyKey env) (map (\<lambda>k. (k, readKey (fs2 @ hs2) k)) ks2) wb)))
   \<and> (k \<notin> set specialKeys \<and> ordinary env (el w) k \<and> map_of fs2 k = Some v
       \<and> (\<forall>k' \<in> set (map fst fs2). writes k' = k \<longrightarrow> k' = k)
       \<and> addProps env bag1 w = Inr w1 \<and> addProps env (VObj p2 fs2 hs2) w1 = Inr w2 \<longrightarrow>
      map_of (jsprops (el w2)) k = Some v)
   \<and> (isElement (el w) \<and> map_of fs2 ''className'' = Some v \<and> toStringJS env v = Inr s
       \<and> (\<forall>k' \<in> set (map fst fs2). k' \<noteq> ''class''
             \<and> (k' \<noteq> ''className'' \<and> k' \<notin> set [''style'', ''dataset'', ''role'', ''aria'']
                  \<longrightarrow> accessor env (kind (el w)) (writes k') = None))
       \<and> addProps env bag1 w = Inr w1 \<and> addProps env (VObj p2 fs2 hs2) w1 = Inr w2 \<longrightarrow>
      className (nshell (el w2)) = s)"
proof -
  have a: "applyKey env (k, v) w = hostStep (assign env k v) w" if "k \<notin> set specialKeys"
    using that by (rule applyKey_general)
  have b: "assign env k v n = Inr (setProperty k v n)
        \<and> map_of (jsprops (setProperty k v n)) k = Some v" if "ordinary env n k"
    using that by (simp add: assign_ordinary update_conv')
  have c: "addProps env (VObj p2 fs2 hs2) w1 =
          (case forEachW (applyKey env) (map (\<lambda>k. (k, readKey (fs2 @ hs2) k)) ks1) w1 of
             Inl x \<Rightarrow> Inl x
           | Inr wa \<Rightarrow>
               (case hostStep (assign env k (readKey (fs2 @ hs2) k)) wa of
                  Inl x \<Rightarrow> Inl x
                | Inr wb \<Rightarrow>
                    forEachW (applyKey env) (map (\<lambda>k. (k, readKey (fs2 @ hs2) k)) ks2) wb))"
    if h: "k \<notin> set specialKeys \<and> map fst fs2 = ks1 @ k # ks2 \<and> k \<notin> set ks2"
  proof -
    from h have "forIn (VObj p2 fs2 hs2) =
        map (\<lambda>k. (k, readKey (fs2 @ hs2) k)) ks1 @ (k, readKey (fs2 @ hs2) k)
          # map (\<lambda>k. (k, readKey (fs2 @ hs2) k)) ks2"
      by simp
    with h last_write_split[of k env] show ?thesis by (simp add: addProps_def)
  qed
  have d: "map_of (jsprops (el w2)) k = Some v"
    if h: "k \<notin> set specialKeys \<and> ordinary env (el w) k \<and> map_of fs2 k = Some v
       \<and> (\<forall>k' \<in> set (map fst fs2). writes k' = k \<longrightarrow> k' = k)
       \<and> addProps env bag1 w = Inr w1 \<and> addProps env (VObj p2 fs2 hs2) w1 = Inr w2"
  proof -
    let ?es = "map (\<lambda>k. (k, readKey (fs2 @ hs2) k)) (map fst fs2)"
    from h have run: "forEachW (applyKey env) ?es w1 = Inr w2" by (simp add: addProps_def)
    from h addProps_kind[of env bag1 w] have "kind (el w1) = kind (el w)" by simp
    with h have o1: "ordinary env (el w1) k" by (simp add: ordinary_kind[of "el w1" "el w"])
    from h have "readKey (fs2 @ hs2) k = v" by (simp add: readKey_def)
    with h have vals: "\<forall>kv \<in> set ?es. writes (fst kv) = k \<longrightarrow> kv = (k, v)" by auto
    from h have "(k, v) \<in> set fs2" by (simp add: map_of_SomeD)
    then have "k \<in> fst ` set fs2" by force
    then have "k \<in> fst ` set ?es" by force
    then have "k \<in> fst ` set ?es \<or> map_of (jsprops (el w1)) k = Some v" by simp
    from last_write_loop[OF _ o1 vals run this] h show ?thesis by blast
  qed
  have e: "className (nshell (el w2)) = s"
    if h: "isElement (el w) \<and> map_of fs2 ''className'' = Some v \<and> toStringJS env v = Inr s
       \<and> (\<forall>k' \<in> set (map fst fs2). k' \<noteq> ''class''
             \<and> (k' \<noteq> ''className'' \<and> k' \<notin> set [''style'', ''dataset'', ''role'', ''aria'']
                  \<longrightarrow> accessor env (kind (el w)) (writes k') = None))
       \<and> addProps env bag1 w = Inr w1 \<and> addProps env (VObj p2 fs2 hs2) w1 = Inr w2"
  proof -
    let ?es = "map (\<lambda>k. (k, readKey (fs2 @ hs2) k)) (map fst fs2)"
    from h have s: "toStringJS env v = Inr s" and K: "isElement (el w)" by simp_all
    from h have run: "forEachW (applyKey env) ?es w1 = Inr w2" by (simp add: addProps_def)
    from h addProps_kind[of env bag1 w] have k1: "kind (el w1) = kind (el w)" by simp
    from h have rd: "readKey (fs2 @ hs2) ''className'' = v" by (simp add: readKey_def)
    from h have "\<forall>k' \<in> set (map fst fs2). k' \<noteq> ''class''
             \<and> (k' \<noteq> ''className'' \<and> k' \<notin> set [''style'', ''dataset'', ''role'', ''aria'']
                  \<longrightarrow> accessor env (kind (el w)) (writes k') = None)" by blast
    with rd have vals: "\<forall>kv \<in> set ?es. fst kv \<noteq> ''class'' \<and> (fst kv = ''className'' \<longrightarrow> snd kv = v)
            \<and> (fst kv \<noteq> ''className'' \<and> fst kv \<notin> set [''style'', ''dataset'', ''role'', ''aria'']
                 \<longrightarrow> accessor env (kind (el w)) (writes (fst kv)) = None)" by auto
    from h have "(''className'', v) \<in> set fs2" by (simp add: map_of_SomeD)
    then have "''className'' \<in> fst ` set fs2" by force
    then have "''className'' \<in> fst ` set ?es" by force
    then have "''className'' \<in> fst ` set ?es \<or> className (nshell (el w1)) = s" by simp
    from class_attribute_loop[OF s K k1 vals run this] show ?thesis .
  qed
  from a b c d e show ?thesis by blast
qed

text \<open>
  The host has a getter only behind \<open>tagName\<close>: the assignment raises and nothing is
  assigned.
\<close>

theorem read_only_property_counterexample:
  "''tagName'' \<notin> set specialKeys
   \<and> addProps demoEnv (VObj PlainProto [(''tagName'', VStr ''x'')] []) divWorld
       = Inl (TypeError, divWorld)"
  by (simp add: run_defs specialKeys_def)

theorem general_key_last_write_witness:
  "''htmlFor'' \<notin> set specialKeys \<and> ordinary demoEnv (el divWorld) ''htmlFor''
   \<and> addProps demoEnv (VObj PlainProto [(''htmlFor'', VStr ''x'')] []) divWorld =
       Inr \<lparr>el = Node None (ElementNode ''div'') emptyShell [(''htmlFor'', VStr ''x'')] [] [],
             trace = []\<rparr>
   \<and> addProps demoEnv (VObj PlainProto [(''class'', VStr ''c''), (''htmlFor'', VStr ''me'')] [])
        \<lparr>el = Node None (ElementNode ''div'') emptyShell [(''htmlFor'', VStr ''x'')] [] [],
          trace = []\<rparr> =
       Inr \<lparr>el = Node None (ElementNode ''div'') \<lparr>attrs = [], className = ''c'', dataset = []\<rparr>
                   [(''htmlFor'', VStr ''me'')] [] [], trace = []\<rparr>
   \<and> map_of (jsprops (Node None (ElementNode ''div'') \<lparr>attrs = [], className = ''c'', dataset = []\<rparr>
                   [(''htmlFor'', VStr ''me'')] [] [])) ''htmlFor'' = Some (VStr ''me'')"
proof -
  let ?w1 = "\<lparr>el = Node None (ElementNode ''div'') emptyShell [(''htmlFor'', VStr ''x'')] [] [],
               trace = []\<rparr>"
  let ?w2 = "\<lparr>el = Node None (ElementNode ''div'') \<lparr>attrs = [], className = ''c'', dataset = []\<rparr>
                   [(''htmlFor'', VStr ''me'')] [] [], trace = []\<rparr>"
  let ?fs = "[(''class'', VStr ''c''), (''htmlFor'', VStr ''me'')]"
  have a: "''htmlFor'' \<notin> set specialKeys \<and> ordinary demoEnv (el divWorld) ''htmlFor''"
    by (simp add: specialKeys_def ordinary_def demoEnv_def)
  have b: "addProps demoEnv (VObj PlainProto [(''htmlFor'', VStr ''x'')] []) divWorld = Inr ?w1"
    by (simp add: run_defs)
  have c: "addProps demoEnv (VObj PlainProto ?fs []) ?w1 = Inr ?w2"
    by (simp add: run_defs setClassName_def withShell_def)
  have d: "map_of ?fs ''htmlFor'' = Some (VStr ''me'')
           \<and> (\<forall>k' \<in> set (map fst ?fs). writes k' = ''htmlFor'' \<longrightarrow> k' = ''htmlFor'')"
    by (simp add: writes_def)
  from general_key_last_write[where k = "''htmlFor''" and env = demoEnv and v = "VStr ''me''"
         and w = divWorld and ?fs2.0 = ?fs and ?bag1.0 = "VObj PlainProto [(''htmlFor'', VStr ''x'')] []"
         and ?w1.0 = ?w1 and ?p2.0 = PlainProto and ?hs2.0 = "[]" and ?w2.0 = ?w2] a b c d
  have "map_of (jsprops (el ?w2)) ''htmlFor'' = Some (VStr ''me'')" by blast
  with a b c show ?thesis by simp
qed

lemma forEachW_cong_set:
  "(\<And>x u. x \<in> set xs \<Longrightarrow> f x u = g x u) \<Longrightarrow> forEachW f xs w = forEachW g xs w"
  by (induction xs arbitrary: w) (simp_all split: sum.splits)

lemma general_keys_loop:
  "\<forall>kv \<in> set es. fst kv \<notin> set specialKeys \<Longrightarrow>
     forEachW (applyKey env) es w =
       forEachW (\<lambda>kv. hostStep (assign env (fst kv) (snd kv))) es w"
proof (rule forEachW_cong_set)
  fix x u
  assume "\<forall>kv \<in> set es. fst kv \<notin> set specialKeys" and "x \<in> set es"
  then have "fst x \<notin> set specialKeys" by simp
  from applyKey_general[OF this, of env "snd x" u]
  show "applyKey env x u = hostStep (assign env (fst x) (snd x)) u" by simp
qed

lemma ordinary_keys_loop:
  "\<forall>kv \<in> set es. ordinary env (el w) (fst kv) \<Longrightarrow>
     forEachW (\<lambda>kv. hostStep (assign env (fst kv) (snd kv))) es w =
       Inr (w\<lparr>el := foldl (\<lambda>n kv. setProperty (fst kv) (snd kv) n) (el w) es\<rparr>)"
proof (induction es arbitrary: w)
  case Nil
  then show ?case by simp
next
  case (Cons kv es)
  let ?w1 = "w\<lparr>el := setProperty (fst kv) (snd kv) (el w)\<rparr>"
  from Cons.prems have s: "hostStep (assign env (fst kv) (snd kv)) w = Inr ?w1"
    by (simp add: hostStep_def assign_ordinary)
  have "\<forall>kv \<in> set es. ordinary env (el ?w1) (fst kv)"
    using Cons.prems ordinary_kind[of "el ?w1" "el w" env] by simp
  from Cons.IH[OF this] s show ?case by simp
qed

lemma foldl_setProperty_children:
  "childNodes (foldl (\<lambda>n kv. setProperty (fst kv) (snd kv) n) n es) = childNodes n"
  by (induction es arbitrary: n) simp_all

text \<open>
  Claim C10. An argument whose tag is \<open>[object Object]\<close>, whatever its prototype and
  whatever methods it carries, is a property bag for \<open>createElement\<close>: its step is that
  of \<open>addProps\<close>, the loop over its enumerable keys, and never that of \<open>addChildren\<close>.
  Whether the step returns or raises, the engine calls no append hook, \<open>toElement\<close> or
  \<open>toString\<close> of the value. When none of the enumerable keys is special, the step is
  the sequence of the host's assignments \<open>el[key] = value\<close>, one for each key in order;
  when in addition every key names an ordinary property of the node, the step returns,
  every key has been stored as a property, and the children are as they were. (Behind
  an accessor of the host, the assignment does what the host does: \<open>textContent\<close>
  replaces the children, a property with a getter alone raises.)
\<close>

theorem object_argument_is_property_bag:
  "applyArg env (VObj p fs hs) w = addProps env (VObj p fs hs) w
   \<and> addProps env (VObj p fs hs) w =
       forEachW (applyKey env) (map (\<lambda>k. (k, readKey (fs @ hs) k)) (map fst fs)) w
   \<and> trace (finalWorld (applyArg env (VObj p fs hs) w)) = trace w
   \<and> ((\<forall>k \<in> set (map fst fs). k \<notin> set specialKeys) \<longrightarrow>
        applyArg env (VObj p fs hs) w =
          forEachW (\<lambda>kv. hostStep (assign env (fst kv) (snd kv)))
            (map (\<lambda>k. (k, readKey (fs @ hs) k)) (map fst fs)) w)
   \<and> ((\<forall>k \<in> set (map fst fs). k \<notin> set specialKeys \<and> ordinary env (el w) k) \<longrightarrow>
        applyArg env (VObj p fs hs) w =
          Inr (w\<lparr>el := foldl (\<lambda>n kv. setProperty (fst kv) (snd kv) n) (el w)
                          (map (\<lambda>k. (k, readKey (fs @ hs) k)) (map fst fs))\<rparr>)
        \<and> childNodes (foldl (\<lambda>n kv. setProperty (fst kv) (snd kv) n) (el w)
                          (map (\<lambda>k. (k, readKey (fs @ hs) k)) (map fst fs))) = childNodes (el w))"
proof -
  let ?es = "map (\<lambda>k. (k, readKey (fs @ hs) k)) (map fst fs)"
  have a: "applyArg env (VObj p fs hs) w = addProps env (VObj p fs hs) w"
    by (simp add: applyArg_object)
  have b: "addProps env (VObj p fs hs) w = forEachW (applyKey env) ?es w"
    by (simp add: addProps_def)
  have c: "trace (finalWorld (applyArg env (VObj p fs hs) w)) = trace w"
    using addProps_trace[of env "VObj p fs hs" w] by (simp add: applyArg_object)
  have d: "applyArg env (VObj p fs hs) w =
          forEachW (\<lambda>kv. hostStep (assign env (fst kv) (snd kv))) ?es w"
    if h: "\<forall>k \<in> set (map fst fs). k \<notin> set specialKeys"
  proof -
    from h have "\<forall>kv \<in> set ?es. fst kv \<notin> set specialKeys" by auto
    from general_keys_loop[OF this, of env w] a b show ?thesis by simp
  qed
  have e: "applyArg env (VObj p fs hs) w =
          Inr (w\<lparr>el := foldl (\<lambda>n kv. setProperty (fst kv) (snd kv) n) (el w) ?es\<rparr>)
        \<and> childNodes (foldl (\<lambda>n kv. setProperty (fst kv) (snd kv) n) (el w) ?es) = childNodes (el w)"
    if h: "\<forall>k \<in> set (map fst fs). k \<notin> set specialKeys \<and> ordinary env (el w) k"
  proof -
    from h have g: "\<forall>kv \<in> set ?es. fst kv \<notin> set specialKeys" by auto
    from h have o: "\<forall>kv \<in> set ?es. ordinary env (el w) (fst kv)" by auto
    from general_keys_loop[OF g, of env w] ordinary_keys_loop[OF o] a b
    show ?thesis by (simp add: foldl_setProperty_children)
  qed
  from a b c d e show ?thesis by blast
qed

theorem object_argument_is_property_bag_witness:
  "''label'' \<notin> set specialKeys \<and> ''toElement'' \<notin> set specialKeys
   \<and> ordinary demoEnv (el divWorld) ''label'' \<and> ordinary demoEnv (el divWorld) ''toElement''
   \<and> applyArg demoEnv
        (VObj (ClassProto ''Widget'') [(''label'', VStr ''ok''), (''toElement'', VFun 1)]
              [(''onappend'', VFun 0)]) divWorld =
      Inr \<lparr>el = Node None (ElementNode ''div'') emptyShell
                   [(''label'', VStr ''ok''), (''toElement'', VFun 1)] [] [],
            trace = []\<rparr>
   \<and> createElement demoEnv ''div''
        [VObj (ClassProto ''Widget'') [(''label'', VStr ''ok''), (''toElement'', VFun 1)]
              [(''onappend'', VFun 0)]] =
      Inr \<lparr>el = Node None (ElementNode ''div'') emptyShell
                   [(''label'', VStr ''ok''), (''toElement'', VFun 1)] [] [],
            trace = []\<rparr>"
proof -
  let ?fs = "[(''label'', VStr ''ok''), (''toElement'', VFun 1)]"
  let ?hs = "[(''onappend'', VFun (0::nat))]"
  let ?r = "\<lparr>el = Node None (ElementNode ''div'') emptyShell
                   [(''label'', VStr ''ok''), (''toElement'', VFun 1)] [] [],
            trace = []\<rparr>"
  have a: "''label'' \<notin> set specialKeys \<and> ''toElement'' \<notin> set specialKeys
     \<and> ordinary demoEnv (el divWorld) ''label'' \<and> ordinary demoEnv (el divWorld) ''toElement''"
    by (simp add: specialKeys_def ordinary_def demoEnv_def)
  then have h: "\<forall>k \<in> set (map fst ?fs). k \<notin> set specialKeys \<and> ordinary demoEnv (el divWorld) k"
    by simp
  have b: "createElement demoEnv ''div'' [VObj (ClassProto ''Widget'') ?fs ?hs] = Inr ?r"
    by (simp add: run_defs)
  from object_argument_is_property_bag
         [where env = demoEnv and p = "ClassProto ''Widget''" and fs = ?fs and hs = ?hs
            and w = divWorld] h
  have "applyArg demoEnv (VObj (ClassProto ''Widget'') ?fs ?hs) divWorld =
          Inr (divWorld\<lparr>el := foldl (\<lambda>n kv. setProperty (fst kv) (snd kv) n) (el divWorld)
                          (map (\<lambda>k. (k, readKey (?fs @ ?hs) k)) (map fst ?fs))\<rparr>)"
    by blast
  then have "applyArg demoEnv (VObj (ClassProto ''Widget'') ?fs ?hs) divWorld = Inr ?r"
    by (simp add: readKey_def setProperty_def divWorld_def divNode_def emptyShell_def)
  with a b show ?thesis by simp
qed

text \<open>
  The same object as a child is another thing: its \<open>toElement\<close> is called and the node it
  gives is appended. And a key with an accessor of the host behind it does what the host
  does: \<open>{textContent: 'hi'}\<close> gives the node a text child.
\<close>

lemma object_as_child_example:
  "addChildren demoEnv
        (VObj (ClassProto ''Widget'') [(''label'', VStr ''ok''), (''toElement'', VFun 1)] [])
        divWorld =
      Inr \<lparr>el = Node None (ElementNode ''div'') emptyShell [] [] [spanNode],
            trace = [Call ToElement 1
                       (VObj (ClassProto ''Widget'') [(''label'', VStr ''ok''), (''toElement'', VFun 1)] [])
                       None]\<rparr>"
  by (simp add: run_defs)

lemma accessor_key_example:
  "createElement demoEnv ''div'' [VObj PlainProto [(''textContent'', VStr ''hi'')] []] =
      Inr \<lparr>el = Node None (ElementNode ''div'') emptyShell [] []
                   [Node None (TextNode ''hi'') emptyShell [] [] []],
            trace = []\<rparr>"
  by (simp add: run_defs)

text \<open>
  Claim C9, amended. For a value that a \<open>for ... in\<close> loop has nothing to visit in
  (\<open>undefined\<close>, \<open>null\<close>, a boolean, a number, a function, the empty string, the empty
  array), a bag \<open>{style: v}\<close>, \<open>{dataset: v}\<close> or \<open>{aria: v}\<close> returns and leaves the node
  and the record of calls as they were.
\<close>

theorem keyless_value_noop:
  "keyless v \<and> (k = ''style'' \<or> k = ''dataset'' \<or> k = ''aria'') \<longrightarrow>
     addProps env (VObj p [(k, v)] hs) w = Inr w"
proof
  assume h: "keyless v \<and> (k = ''style'' \<or> k = ''dataset'' \<or> k = ''aria'')"
  then have "forIn v = []" by (cases v) (simp_all add: indexed_def)
  with h show "addProps env (VObj p [(k, v)] hs) w = Inr w"
    by (auto simp: addProps_def applyKey_def readKey_def)
qed

theorem keyless_value_noop_witness:
  "keyless (VNum 5) \<and> addProps demoEnv (VObj PlainProto [(''style'', VNum 5)] []) divWorld = Inr divWorld"
  using keyless_value_noop[of "VNum 5" "''style''" demoEnv PlainProto "[]" divWorld] by simp

text \<open>
  A string is not a mapping, yet the loop visits its indices: \<open>{aria: 'ab'}\<close> sets the
  attributes \<open>aria-0\<close> and \<open>aria-1\<close>.
\<close>

theorem string_is_not_noop_counterexample:
  "addProps demoEnv (VObj PlainProto [(''aria'', VStr ''ab'')] []) divWorld =
     Inr \<lparr>el = Node None (ElementNode ''div'')
                 \<lparr>attrs = [(''aria-0'', ''a''), (''aria-1'', ''b'')], className = [], dataset = []\<rparr>
                 [] [] [],
           trace = []\<rparr>"
  by (simp add: run_defs indexed_def setAttribute_def validAttributeName_def withShell_def upt_rec)

subsection \<open>The class key\<close>

lemma validateTokens_None:
  "(validateTokens ts = None) = (\<forall>t \<in> set ts. t \<noteq> [] \<and> (\<forall>c \<in> set t. \<not> isAsciiWhitespace c))"
  by (induction ts) auto

lemma splitWs_valid:
  "\<forall>c \<in> set cur. \<not> isAsciiWhitespace c \<Longrightarrow>
     \<forall>t \<in> set (splitWs cur s). t \<noteq> [] \<and> (\<forall>c \<in> set t. \<not> isAsciiWhitespace c)"
proof (induction s arbitrary: cur)
  case Nil
  then show ?case by simp
next
  case (Cons c cs)
  show ?case
  proof (cases "isAsciiWhitespace c")
    case True
    have e: "\<forall>t \<in> set (splitWs [] cs). t \<noteq> [] \<and> (\<forall>c \<in> set t. \<not> isAsciiWhitespace c)"
      by (rule Cons.IH) simp
    show ?thesis
    proof (cases "cur = []")
      case True
      with \<open>isAsciiWhitespace c\<close> e show ?thesis by simp
    next
      case False
      with \<open>isAsciiWhitespace c\<close> e Cons.prems show ?thesis by simp
    qed
  next
    case False
    with Cons.prems have "\<forall>d \<in> set (cur @ [c]). \<not> isAsciiWhitespace d" by simp
    from Cons.IH[OF this] False show ?thesis by simp
  qed
qed

lemma splitWs_token:
  "\<forall>c \<in> set t. \<not> isAsciiWhitespace c \<Longrightarrow> splitWs cur (t @ s) = splitWs (cur @ t) s"
  by (induction t arbitrary: cur) simp_all

lemma splitWs_space: "splitWs cur (CHR '' '' # s) = (if cur = [] then splitWs [] s else cur # splitWs [] s)"
  by (simp add: isAsciiWhitespace_def)

lemma splitWs_joinSp:
  "\<forall>t \<in> set ts. t \<noteq> [] \<and> (\<forall>c \<in> set t. \<not> isAsciiWhitespace c) \<Longrightarrow> splitWs [] (joinSp ts) = ts"
proof (induction ts rule: joinSp.induct)
  case 1
  then show ?case by simp
next
  case (2 t)
  then have "splitWs [] (t @ []) = splitWs ([] @ t) []" by (intro splitWs_token) simp
  with 2 show ?case by simp
next
  case (3 t u ts)
  then have "splitWs [] (t @ (CHR '' '' # joinSp (u # ts))) = splitWs ([] @ t) (CHR '' '' # joinSp (u # ts))"
    by (intro splitWs_token) simp
  with 3 show ?case by (simp add: splitWs_space del: splitWs.simps)
qed

lemma appendNew_in: "t \<in> set seen \<Longrightarrow> appendNew seen t = seen"
  by (simp add: appendNew_def)

lemma appendNew_out: "t \<notin> set seen \<Longrightarrow> appendNew seen t = seen @ [t]"
  by (simp add: appendNew_def)

lemma appendNew_fold_distinct:
  "distinct acc \<Longrightarrow> distinct (foldl appendNew acc xs)"
proof (induction xs arbitrary: acc)
  case Nil
  then show ?case by simp
next
  case (Cons x xs)
  show ?case
  proof (cases "x \<in> set acc")
    case True
    with Cons show ?thesis by (simp add: appendNew_in)
  next
    case False
    with Cons.prems have "distinct (acc @ [x])" by simp
    from Cons.IH[OF this] False show ?thesis by (simp add: appendNew_out)
  qed
qed

lemma appendNew_fold_set: "set (foldl appendNew acc xs) = set acc \<union> set xs"
proof (induction xs arbitrary: acc)
  case Nil
  then show ?case by simp
next
  case (Cons x xs)
  show ?case
  proof (cases "x \<in> set acc")
    case True
    with Cons.IH[of acc] show ?thesis by (auto simp: appendNew_in)
  next
    case False
    with Cons.IH[of "acc @ [x]"] show ?thesis by (auto simp: appendNew_out)
  qed
qed

lemma appendNew_fold_prefix: "\<exists>r. foldl appendNew acc xs = acc @ r"
proof (induction xs arbitrary: acc)
  case Nil
  then show ?case by simp
next
  case (Cons x xs)
  show ?case
  proof (cases "x \<in> set acc")
    case True
    with Cons.IH[of acc] show ?thesis by (simp add: appendNew_in)
  next
    case False
    from Cons.IH[of "acc @ [x]"] obtain r where "foldl appendNew (acc @ [x]) xs = acc @ ([x] @ r)"
      by auto
    with False show ?thesis by (simp add: appendNew_out)
  qed
qed

lemma appendNew_fold_id: "distinct (acc @ xs) \<Longrightarrow> foldl appendNew acc xs = acc @ xs"
proof (induction xs arbitrary: acc)
  case Nil
  then show ?case by simp
next
  case (Cons x xs)
  then have "x \<notin> set acc" "distinct ((acc @ [x]) @ xs)" by auto
  with Cons.IH[of "acc @ [x]"] show ?case by (simp add: appendNew_out)
qed

lemma tokenSet_joinSp:
  assumes "distinct ts" "\<forall>t \<in> set ts. t \<noteq> [] \<and> (\<forall>c \<in> set t. \<not> isAsciiWhitespace c)"
  shows "tokenSet (joinSp ts) = ts"
  using assms appendNew_fold_id[of "[]" ts] by (simp add: tokenSet_def splitWs_joinSp)

lemma tokenSet_distinct: "distinct (tokenSet s)"
  by (simp add: tokenSet_def appendNew_fold_distinct)

lemma tokenSet_valid: "\<forall>t \<in> set (tokenSet s). t \<noteq> [] \<and> (\<forall>c \<in> set t. \<not> isAsciiWhitespace c)"
  using splitWs_valid[of "[]" s] by (simp add: tokenSet_def appendNew_fold_set)

lemma classList_setClassName: "classList (setClassName s n) = tokenSet s"
  by (simp add: classList_def setClassName_def withShell_def)

lemma classListAdd_result:
  assumes "isElement n" "validateTokens A = None"
  shows "classListAdd A n = Inr (setClassName (joinSp (foldl appendNew (classList n) A)) n)"
    and "classList (setClassName (joinSp (foldl appendNew (classList n) A)) n)
           = foldl appendNew (classList n) A"
proof -
  show "classListAdd A n = Inr (setClassName (joinSp (foldl appendNew (classList n) A)) n)"
    using assms by (simp add: classListAdd_def)
  have d: "distinct (foldl appendNew (classList n) A)"
    by (simp add: appendNew_fold_distinct classList_def tokenSet_distinct)
  have v: "\<forall>t \<in> set (foldl appendNew (classList n) A).
             t \<noteq> [] \<and> (\<forall>c \<in> set t. \<not> isAsciiWhitespace c)"
    using tokenSet_valid[of "className (nshell n)"] assms(2)
    by (auto simp: appendNew_fold_set classList_def validateTokens_None)
  from tokenSet_joinSp[OF d v]
  show "classList (setClassName (joinSp (foldl appendNew (classList n) A)) n)
           = foldl appendNew (classList n) A"
    by (simp add: classList_setClassName)
qed

lemma coerceAll_strings: "coerceAll env (map VStr A) = Inr A"
  by (induction A) simp_all

lemma class_array_unfold:
  "addProps env (VObj p [(''class'', VArr xs ps)] hs) w =
     (if isElement (el w) then
        (case coerceAll env xs of
           Inl e \<Rightarrow> Inl (e, w)
         | Inr ts \<Rightarrow> hostStep (classListAdd ts) w)
      else Inl (TypeError, w))"
  by (simp add: addProps_def applyKey_def readKey_def split: sum.splits)

lemma class_nullish: "isNullish v \<Longrightarrow> addProps env (VObj p [(''class'', v)] hs) w = Inr w"
  by (cases v) (simp_all add: addProps_def applyKey_def readKey_def)

lemma class_scalar:
  assumes "\<not> isArray v" "\<not> isNullish v"
  shows "addProps env (VObj p [(''class'', v)] hs) w = hostStep (assign env ''className'' v) w"
proof -
  have "applyKey env (''class'', v) w = hostStep (assign env ''className'' v) w"
    using assms by (cases v) (simp_all add: applyKey_def)
  then show ?thesis by (simp add: addProps_def readKey_def split: sum.splits)
qed

lemma className_setClassName: "className (nshell (setClassName s n)) = s"
  by (simp add: setClassName_def withShell_def)

text \<open>
  Claim C4, amended. The key \<open>class\<close>. For \<open>null\<close> and \<open>undefined\<close> nothing happens. For any
  other value that is not an array the round is the assignment \<open>el.className = v\<close>: on an
  element the value is coerced to a string, which becomes the whole \<open>class\<close> attribute
  whatever it was before, and a coercion that raises leaves the node as it was. For an
  array the round is one call \<open>el.classList.add\<close> with the elements: on a node that is
  not an element it raises \<open>TypeError\<close>; on an element every member is coerced to a string
  by itself (a string is taken as it is), and when every string is a valid token, not
  empty and without whitespace, the call returns and the class list afterwards is the
  class list before with each string added in order unless already present: the former
  classes are all kept, in front, and the classes are the former ones together with
  those of the array. When a string is not a valid token, or a coercion raises, the
  call raises and the node is as it was.
\<close>

theorem class_key:
  "(isNullish v \<longrightarrow> addProps env (VObj p [(''class'', v)] hs) w = Inr w)
   \<and> (\<not> isArray v \<and> \<not> isNullish v \<longrightarrow>
        addProps env (VObj p [(''class'', v)] hs) w = hostStep (assign env ''className'' v) w)
   \<and> (isElement (el w) \<and> \<not> isArray v \<and> \<not> isNullish v \<and> toStringJS env v = Inr s \<longrightarrow>
        addProps env (VObj p [(''class'', v)] hs) w = Inr (w\<lparr>el := setClassName s (el w)\<rparr>)
        \<and> className (nshell (setClassName s (el w))) = s
        \<and> classList (setClassName s (el w)) = tokenSet s)
   \<and> (isElement (el w) \<and> \<not> isArray v \<and> \<not> isNullish v \<and> toStringJS env v = Inl e \<longrightarrow>
        addProps env (VObj p [(''class'', v)] hs) w = Inl (e, w))
   \<and> (\<not> isElement (el w) \<longrightarrow>
        addProps env (VObj p [(''class'', VArr xs ps)] hs) w = Inl (TypeError, w))
   \<and> (isElement (el w) \<and> coerceAll env xs = Inl e \<longrightarrow>
        addProps env (VObj p [(''class'', VArr xs ps)] hs) w = Inl (e, w))
   \<and> (isElement (el w) \<and> coerceAll env xs = Inr A \<and> validateTokens A = Some e \<longrightarrow>
        addProps env (VObj p [(''class'', VArr xs ps)] hs) w = Inl (e, w))
   \<and> (isElement (el w) \<and> coerceAll env xs = Inr A \<and> validateTokens A = None \<longrightarrow>
        addProps env (VObj p [(''class'', VArr xs ps)] hs) w =
          Inr (w\<lparr>el := setClassName (joinSp (foldl appendNew (classList (el w)) A)) (el w)\<rparr>)
        \<and> classList (setClassName (joinSp (foldl appendNew (classList (el w)) A)) (el w))
            = foldl appendNew (classList (el w)) A
        \<and> set (foldl appendNew (classList (el w)) A) = set (classList (el w)) \<union> set A
        \<and> take (length (classList (el w))) (foldl appendNew (classList (el w)) A)
            = classList (el w))
   \<and> coerceAll env (map VStr A) = Inr A
   \<and> (validateTokens A = None) =
       (\<forall>t \<in> set A. t \<noteq> [] \<and> (\<forall>c \<in> set t. \<not> isAsciiWhitespace c))"
proof -
  have c: "addProps env (VObj p [(''class'', v)] hs) w = Inr (w\<lparr>el := setClassName s (el w)\<rparr>)
        \<and> className (nshell (setClassName s (el w))) = s
        \<and> classList (setClassName s (el w)) = tokenSet s"
    if "isElement (el w) \<and> \<not> isArray v \<and> \<not> isNullish v \<and> toStringJS env v = Inr s"
    using that class_scalar[of v env p hs w]
    by (simp add: hostStep_def assign_def className_setClassName classList_setClassName)
  have d: "addProps env (VObj p [(''class'', v)] hs) w = Inl (e, w)"
    if "isElement (el w) \<and> \<not> isArray v \<and> \<not> isNullish v \<and> toStringJS env v = Inl e"
    using that class_scalar[of v env p hs w] by (simp add: hostStep_def assign_def)
  have f: "addProps env (VObj p [(''class'', VArr xs ps)] hs) w = Inl (e, w)"
    if "isElement (el w) \<and> coerceAll env xs = Inl e"
    using that by (simp add: class_array_unfold)
  have g: "addProps env (VObj p [(''class'', VArr xs ps)] hs) w = Inl (e, w)"
    if "isElement (el w) \<and> coerceAll env xs = Inr A \<and> validateTokens A = Some e"
    using that by (simp add: class_array_unfold hostStep_def classListAdd_def)
  have h: "addProps env (VObj p [(''class'', VArr xs ps)] hs) w =
          Inr (w\<lparr>el := setClassName (joinSp (foldl appendNew (classList (el w)) A)) (el w)\<rparr>)
        \<and> classList (setClassName (joinSp (foldl appendNew (classList (el w)) A)) (el w))
            = foldl appendNew (classList (el w)) A
        \<and> set (foldl appendNew (classList (el w)) A) = set (classList (el w)) \<union> set A
        \<and> take (length (classList (el w))) (foldl appendNew (classList (el w)) A)
            = classList (el w)"
    if t: "isElement (el w) \<and> coerceAll env xs = Inr A \<and> validateTokens A = None"
  proof -
    from t have e: "isElement (el w)" and v: "validateTokens A = None" by simp_all
    from t classListAdd_result(1)[OF e v]
    have r: "addProps env (VObj p [(''class'', VArr xs ps)] hs) w =
          Inr (w\<lparr>el := setClassName (joinSp (foldl appendNew (classList (el w)) A)) (el w)\<rparr>)"
      by (simp add: class_array_unfold hostStep_def)
    from appendNew_fold_prefix[of "classList (el w)" A] obtain r'
      where "foldl appendNew (classList (el w)) A = classList (el w) @ r'" by blast
    then have "take (length (classList (el w))) (foldl appendNew (classList (el w)) A)
            = classList (el w)" by simp
    with r classListAdd_result(2)[OF e v] show ?thesis by (simp add: appendNew_fold_set)
  qed
  have i: "addProps env (VObj p [(''class'', VArr xs ps)] hs) w = Inl (TypeError, w)"
    if "\<not> isElement (el w)"
    using that by (simp add: class_array_unfold)
  from class_nullish[of v env p hs w] class_scalar[of v env p hs w] c d f g h i
    coerceAll_strings[of env A] validateTokens_None[of A]
  show ?thesis by blast
qed

text \<open>
  The string \<open>a b\<close> is not a class token: with the array \<open>['a b', '']\<close> the call raises and
  adds nothing.
\<close>

theorem class_token_refused_counterexample:
  "addProps demoEnv (VObj PlainProto [(''class'', VArr [VStr ''a b'', VStr ''''] [])] []) divWorld
     = Inl (InvalidCharacterError, divWorld)"
  by (simp add: run_defs classListAdd_def isAsciiWhitespace_def)

theorem class_key_witness:
  "isElement (Node None (ElementNode ''div'') \<lparr>attrs = [], className = ''top'', dataset = []\<rparr> [] [] [])
   \<and> coerceAll demoEnv [VStr ''middle'', VNum 2] = Inr [''middle'', ''2'']
   \<and> validateTokens [''middle'', ''2''] = None
   \<and> addProps demoEnv (VObj PlainProto [(''class'', VArr [VStr ''middle'', VNum 2] [])] [])
        \<lparr>el = Node None (ElementNode ''div'') \<lparr>attrs = [], className = ''top'', dataset = []\<rparr> [] [] [],
          trace = []\<rparr> =
      Inr \<lparr>el = Node None (ElementNode ''div'')
                   \<lparr>attrs = [], className = ''top middle 2'', dataset = []\<rparr> [] [] [],
            trace = []\<rparr>
   \<and> classList (Node None (ElementNode ''div'')
                   \<lparr>attrs = [], className = ''top middle 2'', dataset = []\<rparr> [] [] [])
       = [''top'', ''middle'', ''2'']"
proof -
  let ?n = "Node None (ElementNode ''div'') \<lparr>attrs = [], className = ''top'', dataset = []\<rparr> [] [] []"
  let ?w = "\<lparr>el = ?n, trace = []\<rparr>"
  let ?A = "[''middle'', ''2'']"
  have a: "isElement (el ?w)" by simp
  have b: "coerceAll demoEnv [VStr ''middle'', VNum 2] = Inr ?A"
    by (simp add: showInt_def showNat.simps)
  have c: "validateTokens ?A = None" by (simp add: isAsciiWhitespace_def)
  have l: "classList ?n = [''top'']"
    by (simp add: classList_def tokenSet_def appendNew_def isAsciiWhitespace_def)
  from class_key[where w = ?w and env = demoEnv and p = PlainProto
                   and xs = "[VStr ''middle'', VNum 2]" and A = ?A and ps = "[]" and hs = "[]"] a b c
  have "addProps demoEnv (VObj PlainProto [(''class'', VArr [VStr ''middle'', VNum 2] [])] []) ?w =
          Inr (?w\<lparr>el := setClassName (joinSp (foldl appendNew (classList (el ?w)) ?A)) (el ?w)\<rparr>)
        \<and> classList (setClassName (joinSp (foldl appendNew (classList (el ?w)) ?A)) (el ?w))
            = foldl appendNew (classList (el ?w)) ?A"
    by blast
  with a b c l show ?thesis by (simp add: appendNew_def setClassName_def withShell_def)
qed

subsection \<open>The child normalizer\<close>

lemma beforeAppend_no_hook: "\<not> hasHook v \<Longrightarrow> beforeAppend env v w = Inr w"
  by (simp add: hasHook_def beforeAppend_def)

lemma afterAppend_no_hook: "\<not> hasHook v \<Longrightarrow> afterAppend env v w = Inr w"
  by (simp add: hasHook_def afterAppend_def)

lemma around_no_hook: "\<not> hasHook v \<Longrightarrow> around env v step w = step w"
  by (simp add: around_def beforeAppend_no_hook afterAppend_no_hook split: sum.splits)

lemma around_cong: "(\<And>u. s1 u = s2 u) \<Longrightarrow> around env v s1 w = around env v s2 w"
  by (simp add: around_def split: sum.splits)

lemma addChildren_around:
  "addChildren env v w =
     around env v (case v of VArr xs ps \<Rightarrow> forEachW (addChildren env) xs | _ \<Rightarrow> appendOne env v) w"
  by (cases v) (simp_all add: addChildren.simps around_def addEach_forEachW split: sum.splits)

lemma addChildren_leaf_around:
  "\<not> isArray v \<Longrightarrow> addChildren env v w = around env v (appendOne env v) w"
  by (cases v) (simp_all add: addChildren_around)

lemma primitive_no_hook [simp]:
  "\<not> hasHook VUndefined" "\<not> hasHook VNull" "\<not> hasHook (VBool b)" "\<not> hasHook (VNum i)"
  "\<not> hasHook (VStr s)" "\<not> hasHook (VFun f)"
  by (simp_all add: hasHook_def methodOf_def)

lemma appendOne_other:
  "\<not> isNodeValue v \<Longrightarrow> \<not> isNullish v \<Longrightarrow>
   appendOne env v w =
     (case methodOf v ''toElement'' of
        Some c \<Rightarrow> invoke env ToElement c v w (\<lambda>r. hostStep (appendValue r))
      | None \<Rightarrow>
          (case methodOf v ''toString'' of
             Some c \<Rightarrow>
               invoke env ToStringCall c v w
                 (\<lambda>r w. withString (toStringJS env r) w
                           (\<lambda>s. hostStep (appendChild (createTextNode s))))
           | None \<Rightarrow>
               withString (concatEmpty env v) w
                 (\<lambda>s. hostStep (appendChild (createTextNode s)))))"
  by (cases v; hypsubst; simp add: appendOne_def)

lemma hostStep_appendChild_ok:
  assumes "isElement (el w)" "\<forall>i. nref (el w) = Some i \<longrightarrow> i \<notin> set (refsOf c)"
  shows "hostStep (appendChild c) w = Inr (w\<lparr>el := attach c (el w)\<rparr>)"
  using assms by (auto simp: hostStep_def appendChild_def split: option.splits)

lemma attach_last:
  "childNodes (attach c n) \<noteq> []"
  "kind (last (childNodes (attach c n))) = kind c"
  "nref (last (childNodes (attach c n))) = nref c"
  "nshell (last (childNodes (attach c n))) = nshell c"
  "jsprops (last (childNodes (attach c n))) = jsprops c"
  "style (last (childNodes (attach c n))) = style c"
  by (simp_all add: attach_def Let_def)

lemma attach_last_leaf: "childNodes c = [] \<Longrightarrow> last (childNodes (attach c n)) = c"
  by (cases c) (simp add: attach_def Let_def)

lemma addChildren_array:
  "addChildren env (VArr xs ps) w = around env (VArr xs ps) (forEachW (addChildren env) xs) w"
  by (simp add: addChildren_around)

lemma addChildren_node:
  "addChildren env (VNode c) w = around env (VNode c) (hostStep (appendChild c)) w"
  by (simp add: addChildren_around appendOne_def cong: around_cong)

lemma addChildren_null:
  "addChildren env VNull w = hostStep (appendChild (createComment ''null'')) w"
  by (simp add: addChildren_around around_no_hook appendOne_def concatEmpty_def withString_def)

lemma addChildren_undefined:
  "addChildren env VUndefined w = hostStep (appendChild (createComment ''undefined'')) w"
  by (simp add: addChildren_around around_no_hook appendOne_def concatEmpty_def withString_def)

lemma addChildren_elementable:
  assumes "\<not> isArray v" "\<not> isNodeValue v" "\<not> isNullish v"
    and "methodOf v ''toElement'' = Some (User f)" "produce env f v = Inr r"
  shows "addChildren env v w =
           around env v (\<lambda>w1. hostStep (appendValue r)
                                 (w1\<lparr>trace := trace w1 @ [Call ToElement f v None]\<rparr>)) w"
  unfolding addChildren_leaf_around[OF assms(1)]
  by (rule around_cong) (simp add: appendOne_other assms invoke_def Let_def)

lemma addChildren_stringable:
  assumes "\<not> isArray v" "\<not> isNodeValue v" "\<not> isNullish v"
    and "methodOf v ''toElement'' = None"
    and "methodOf v ''toString'' = Some (User f)" "produce env f v = Inr r"
    and "toStringJS env r = Inr s"
  shows "addChildren env v w =
           around env v (\<lambda>w1. hostStep (appendChild (createTextNode s))
                                 (w1\<lparr>trace := trace w1 @ [Call ToStringCall f v None]\<rparr>)) w"
  unfolding addChildren_leaf_around[OF assms(1)]
  by (rule around_cong) (simp add: appendOne_other assms invoke_def withString_def Let_def)

lemma addChildren_builtin_text:
  assumes "\<not> isArray v" "\<not> isNodeValue v" "\<not> isNullish v"
    and "methodOf v ''toElement'' = None"
    and "methodOf v ''toString'' = Some Native" "builtinToString env v = Inr s"
  shows "addChildren env v w = around env v (hostStep (appendChild (createTextNode s))) w"
  unfolding addChildren_leaf_around[OF assms(1)]
  by (rule around_cong) (simp add: appendOne_other assms invoke_def withString_def Let_def)

lemma addChildren_coerced:
  assumes "\<not> isArray v" "\<not> isNodeValue v" "\<not> isNullish v"
    and "methodOf v ''toElement'' = None"
    and "methodOf v ''toString'' = None" "concatEmpty env v = Inr s"
  shows "addChildren env v w = around env v (hostStep (appendChild (createTextNode s))) w"
  unfolding addChildren_leaf_around[OF assms(1)]
  by (rule around_cong) (simp add: appendOne_other assms withString_def)

text \<open>
  Claim C2. The dispatch of \<open>addChildren\<close> on the shape of the child value, for every
  value, with or without append hooks: the call is the step of the shape between the
  two hook statements (\<open>around\<close>; the hooks themselves are the subject of claim C5, and
  for a value without hooks the call is the step alone). An array is recursed element
  by element, in order. A node (element, comment or text) is handed to \<open>appendChild\<close> as
  it is. \<open>null\<close> and \<open>undefined\<close> become a new comment node with the text \<open>null\<close> or
  \<open>undefined\<close>. For any other value: if it has a \<open>toElement\<close> method, that method is called
  and what it returns is handed to \<open>appendChild\<close>, whether or not the value also has
  \<open>toString\<close>; without \<open>toElement\<close>, if it has a \<open>toString\<close> method (its own, or the built-in
  one of strings, numbers, booleans, functions and objects), the method is called and
  the string appended as a new text node; with neither, the value is coerced by
  \<open>'' + v\<close> and the text appended as a new text node. Appending to an element that does
  not lie inside the child succeeds and makes the child the last of the children.
\<close>

theorem addChildren_shapes:
  "addChildren env (VArr xs ps) w = around env (VArr xs ps) (forEachW (addChildren env) xs) w
   \<and> addChildren env (VNode c) w = around env (VNode c) (hostStep (appendChild c)) w
   \<and> addChildren env VNull w = hostStep (appendChild (createComment ''null'')) w
   \<and> addChildren env VUndefined w = hostStep (appendChild (createComment ''undefined'')) w
   \<and> (\<not> isArray v \<and> \<not> isNodeValue v \<and> \<not> isNullish v
        \<and> methodOf v ''toElement'' = Some (User f) \<and> produce env f v = Inr r \<longrightarrow>
       addChildren env v w =
         around env v (\<lambda>w1. hostStep (appendValue r)
                               (w1\<lparr>trace := trace w1 @ [Call ToElement f v None]\<rparr>)) w)
   \<and> appendValue (VNode c) = appendChild c
   \<and> (\<not> isArray v \<and> \<not> isNodeValue v \<and> \<not> isNullish v
        \<and> methodOf v ''toElement'' = None
        \<and> methodOf v ''toString'' = Some (User f) \<and> produce env f v = Inr r
        \<and> toStringJS env r = Inr s \<longrightarrow>
       addChildren env v w =
         around env v (\<lambda>w1. hostStep (appendChild (createTextNode s))
                               (w1\<lparr>trace := trace w1 @ [Call ToStringCall f v None]\<rparr>)) w)
   \<and> toStringJS env (VStr s) = Inr s
   \<and> (\<not> isArray v \<and> \<not> isNodeValue v \<and> \<not> isNullish v
        \<and> methodOf v ''toElement'' = None
        \<and> methodOf v ''toString'' = Some Native \<and> builtinToString env v = Inr s \<longrightarrow>
       addChildren env v w = around env v (hostStep (appendChild (createTextNode s))) w)
   \<and> (\<not> isArray v \<and> \<not> isNodeValue v \<and> \<not> isNullish v
        \<and> methodOf v ''toElement'' = None
        \<and> methodOf v ''toString'' = None \<and> concatEmpty env v = Inr s \<longrightarrow>
       addChildren env v w = around env v (hostStep (appendChild (createTextNode s))) w)
   \<and> (\<not> hasHook v \<longrightarrow> around env v step w = step w)
   \<and> (isElement (el w) \<and> (\<forall>i. nref (el w) = Some i \<longrightarrow> i \<notin> set (refsOf c)) \<longrightarrow>
       hostStep (appendChild c) w = Inr (w\<lparr>el := attach c (el w)\<rparr>)
       \<and> childNodes (attach c (el w)) \<noteq> []
       \<and> kind (last (childNodes (attach c (el w)))) = kind c
       \<and> nref (last (childNodes (attach c (el w)))) = nref c
       \<and> (childNodes c = [] \<longrightarrow> last (childNodes (attach c (el w))) = c))"
proof -
  have i: "hostStep (appendChild c) w = Inr (w\<lparr>el := attach c (el w)\<rparr>)
       \<and> childNodes (attach c (el w)) \<noteq> []
       \<and> kind (last (childNodes (attach c (el w)))) = kind c
       \<and> nref (last (childNodes (attach c (el w)))) = nref c
       \<and> (childNodes c = [] \<longrightarrow> last (childNodes (attach c (el w))) = c)"
    if "isElement (el w) \<and> (\<forall>i. nref (el w) = Some i \<longrightarrow> i \<notin> set (refsOf c))"
    using that hostStep_appendChild_ok[of w c] attach_last[of c "el w"] attach_last_leaf[of c "el w"]
    by simp
  have j: "appendValue (VNode c) = appendChild c" by (rule ext) simp
  have k: "toStringJS env (VStr s) = Inr s" by simp
  from i j k addChildren_array[of env xs ps w] addChildren_node[of env c w]
    addChildren_null[of env w] addChildren_undefined[of env w]
    addChildren_elementable[of v f env r w] addChildren_stringable[of v f env r s w]
    addChildren_builtin_text[of v env s w] addChildren_coerced[of v env s w]
    around_no_hook[of v env step w]
  show ?thesis by blast
qed

theorem addChildren_shapes_witness:
  "\<not> isArray (VObj PlainProto [(''toElement'', VFun 1), (''toString'', VFun 2)] [(''onappend'', VFun 8)])
   \<and> \<not> isNodeValue (VObj PlainProto [(''toElement'', VFun 1), (''toString'', VFun 2)] [(''onappend'', VFun 8)])
   \<and> \<not> isNullish (VObj PlainProto [(''toElement'', VFun 1), (''toString'', VFun 2)] [(''onappend'', VFun 8)])
   \<and> methodOf (VObj PlainProto [(''toElement'', VFun 1), (''toString'', VFun 2)] [(''onappend'', VFun 8)])
        ''toElement'' = Some (User 1)
   \<and> produce demoEnv 1
        (VObj PlainProto [(''toElement'', VFun 1), (''toString'', VFun 2)] [(''onappend'', VFun 8)])
        = Inr (VNode spanNode)
   \<and> addChildren demoEnv
        (VObj PlainProto [(''toElement'', VFun 1), (''toString'', VFun 2)] [(''onappend'', VFun 8)])
        divWorld =
      Inr \<lparr>el = Node None (ElementNode ''div'') emptyShell [(''seen'', VBool True)] [] [spanNode],
            trace = [Call ToElement 1
                       (VObj PlainProto [(''toElement'', VFun 1), (''toString'', VFun 2)]
                          [(''onappend'', VFun 8)]) None,
                     Call AfterAppend 8
                       (VObj PlainProto [(''toElement'', VFun 1), (''toString'', VFun 2)]
                          [(''onappend'', VFun 8)])
                       (Some (Node None (ElementNode ''div'') emptyShell [] [] [spanNode]))]\<rparr>"
proof -
  let ?o = "VObj PlainProto [(''toElement'', VFun 1), (''toString'', VFun 2)] [(''onappend'', VFun 8)]"
  have a: "\<not> isArray ?o \<and> \<not> isNodeValue ?o \<and> \<not> isNullish ?o
           \<and> methodOf ?o ''toElement'' = Some (User 1) \<and> produce demoEnv 1 ?o = Inr (VNode spanNode)"
    by (simp add: methodOf_def demoEnv_def)
  have b: "around demoEnv ?o (\<lambda>w1. hostStep (appendValue (VNode spanNode))
                               (w1\<lparr>trace := trace w1 @ [Call ToElement 1 ?o None]\<rparr>)) divWorld
           = Inr \<lparr>el = Node None (ElementNode ''div'') emptyShell [(''seen'', VBool True)] [] [spanNode],
                  trace = [Call ToElement 1 ?o None,
                           Call AfterAppend 8 ?o
                             (Some (Node None (ElementNode ''div'') emptyShell [] [] [spanNode]))]\<rparr>"
    by (simp add: around_def run_defs)
  from addChildren_shapes[where v = ?o and f = 1 and env = demoEnv and r = "VNode spanNode"
         and w = divWorld] a
  have "addChildren demoEnv ?o divWorld =
          around demoEnv ?o (\<lambda>w1. hostStep (appendValue (VNode spanNode))
                               (w1\<lparr>trace := trace w1 @ [Call ToElement 1 ?o None]\<rparr>)) divWorld"
    by blast
  with a b show ?thesis by simp
qed

lemma addChildren_no_hook:
  "\<not> hasHook v \<Longrightarrow>
     addChildren env v w = (case v of VArr xs ps \<Rightarrow> addEach env xs w | _ \<Rightarrow> appendOne env v w)"
  by (simp add: addChildren.simps beforeAppend_no_hook afterAppend_no_hook split: sum.splits)

lemma forEachW_single: "forEachW f [x] w = f x w"
  by (simp split: sum.splits)

lemma flatten_run:
  "(\<not> arrayHooks S \<longrightarrow> addChildren env S w = forEachW (addChildren env) (flatten S) w)"
  "(\<not> arrayHooksAny xs \<longrightarrow> addEach env xs w = forEachW (addChildren env) (flattenAll xs) w)"
proof (induction S and xs arbitrary: w and w rule: flatten_flattenAll.induct)
  case (1 xs ps)
  then show ?case
    by (simp add: addChildren_no_hook)
next
  case (4 x xs)
  then show ?case
    by (simp add: forEachW_append split: sum.splits)
qed (simp_all only: flatten.simps flattenAll.simps forEachW_single addEach.simps forEachW.simps(1) simp_thms)

lemma plain_flatten:
  "(plainChild S \<longrightarrow> \<not> arrayHooks S \<and> (\<forall>v \<in> set (flatten S). plainChild v \<and> \<not> isArray v))"
  "(plainChildren xs \<longrightarrow> \<not> arrayHooksAny xs \<and> (\<forall>v \<in> set (flattenAll xs). plainChild v \<and> \<not> isArray v))"
  by (induction S and xs rule: flatten_flattenAll.induct) auto

lemma plain_no_hook: "plainChild v \<Longrightarrow> \<not> hasHook v"
  by (cases v) simp_all

lemma obj_methods:
  "p \<noteq> NullProto \<Longrightarrow> getProp (VObj p fs hs) name = None \<Longrightarrow>
     methodOf (VObj p fs hs) name =
       (if name = ''toString'' \<or> name = ''valueOf'' then Some Native else None)"
  by (cases p) (simp_all add: methodOf_def del: getProp.simps)

lemma prim_methods:
  "methodOf (VBool b) ''toElement'' = None" "methodOf (VBool b) ''toString'' = Some Native"
  "methodOf (VNum i) ''toElement'' = None" "methodOf (VNum i) ''toString'' = Some Native"
  "methodOf (VStr s) ''toElement'' = None" "methodOf (VStr s) ''toString'' = Some Native"
  "methodOf (VFun f) ''toElement'' = None" "methodOf (VFun f) ''toString'' = Some Native"
  by (simp_all add: methodOf_def)

lemma prim_builtin:
  "builtinToString env (VBool b) = Inr (if b then ''true'' else ''false'')"
  "builtinToString env (VNum i) = Inr (showInt i)"
  "builtinToString env (VStr s) = Inr s"
  "builtinToString env (VFun f) = Inr (fsource env f)"
  "builtinToString env (VObj p fs hs) = Inr (objectToString env (VObj p fs hs))"
  by (simp_all add: builtinToString_def)

lemma plain_leaf_step:
  assumes "plainChild v" "\<not> isArray v" "isElement (el w)" "nref (el w) = None"
  shows "addChildren env v w = Inr (w\<lparr>el := attach (leafNode env v) (el w)\<rparr>)"
proof -
  have ok: "hostStep (appendChild c) w = Inr (w\<lparr>el := attach c (el w)\<rparr>)" for c
    using assms(3,4) by (simp add: hostStep_appendChild_ok)
  have tx: "addChildren env v w = Inr (w\<lparr>el := attach (createTextNode s) (el w)\<rparr>)"
    if "\<not> isNodeValue v" "\<not> isNullish v" "methodOf v ''toElement'' = None"
       "methodOf v ''toString'' = Some Native" "builtinToString env v = Inr s" for s
    using addChildren_builtin_text[OF assms(2) that, of w] ok
    by (simp add: around_no_hook[OF plain_no_hook[OF assms(1)]])
  show ?thesis
  proof (cases v)
    case VUndefined
    then show ?thesis using ok by (simp add: addChildren_undefined)
  next
    case VNull
    then show ?thesis using ok by (simp add: addChildren_null)
  next
    case (VBool b)
    have "addChildren env (VBool b) w =
            Inr (w\<lparr>el := attach (createTextNode (if b then ''true'' else ''false'')) (el w)\<rparr>)"
      using tx[unfolded VBool, OF _ _ prim_methods(1,2) prim_builtin(1)] by simp
    with VBool show ?thesis by (simp add: prim_builtin)
  next
    case (VNum i)
    have "addChildren env (VNum i) w = Inr (w\<lparr>el := attach (createTextNode (showInt i)) (el w)\<rparr>)"
      using tx[unfolded VNum, OF _ _ prim_methods(3,4) prim_builtin(2)] by simp
    with VNum show ?thesis by (simp add: prim_builtin)
  next
    case (VStr s)
    have "addChildren env (VStr s) w = Inr (w\<lparr>el := attach (createTextNode s) (el w)\<rparr>)"
      using tx[unfolded VStr, OF _ _ prim_methods(5,6) prim_builtin(3)] by simp
    with VStr show ?thesis by (simp add: prim_builtin)
  next
    case (VFun f)
    have "addChildren env (VFun f) w = Inr (w\<lparr>el := attach (createTextNode (fsource env f)) (el w)\<rparr>)"
      using tx[unfolded VFun, OF _ _ prim_methods(7,8) prim_builtin(4)] by simp
    with VFun show ?thesis by (simp add: prim_builtin)
  next
    case (VArr xs ps)
    with assms(2) show ?thesis by simp
  next
    case (VObj p fs hs)
    with assms(1) have f: "p \<noteq> NullProto" "getProp (VObj p fs hs) ''toElement'' = None"
      "getProp (VObj p fs hs) ''toString'' = None" by (simp_all del: getProp.simps)
    have m1: "methodOf (VObj p fs hs) ''toElement'' = None"
      using obj_methods[OF f(1) f(2)] by simp
    have m2: "methodOf (VObj p fs hs) ''toString'' = Some Native"
      using obj_methods[OF f(1) f(3)] by simp
    have "addChildren env (VObj p fs hs) w =
            Inr (w\<lparr>el := attach (createTextNode (objectToString env (VObj p fs hs))) (el w)\<rparr>)"
      using tx[unfolded VObj, OF _ _ m1 m2 prim_builtin(5)] by simp
    with VObj show ?thesis by (simp add: prim_builtin)
  next
    case (VNode n)
    with assms(1) ok show ?thesis by (simp add: addChildren_node around_no_hook)
  qed
qed

lemma attach_keeps [simp]:
  "isElement (attach c n) = isElement n" "nref (attach c n) = nref n"
proof -
  show "isElement (attach c n) = isElement n"
    by (cases n; cases "kind n") (simp_all add: attach_def Let_def)
  show "nref (attach c n) = nref n" by (simp add: attach_def Let_def)
qed

lemma plain_leaves_run:
  assumes "\<forall>v \<in> set vs. plainChild v \<and> \<not> isArray v" "isElement (el w)" "nref (el w) = None"
  shows "forEachW (addChildren env) vs w =
           Inr (w\<lparr>el := foldl (\<lambda>n v. attach (leafNode env v) n) (el w) vs\<rparr>)"
  using assms
proof (induction vs arbitrary: w)
  case Nil
  then show ?case by simp
next
  case (Cons v vs)
  from Cons.prems have step: "addChildren env v w = Inr (w\<lparr>el := attach (leafNode env v) (el w)\<rparr>)"
    by (intro plain_leaf_step) simp_all
  have "forEachW (addChildren env) vs (w\<lparr>el := attach (leafNode env v) (el w)\<rparr>) =
          Inr ((w\<lparr>el := attach (leafNode env v) (el w)\<rparr>)
                 \<lparr>el := foldl (\<lambda>n v. attach (leafNode env v) n)
                          (el (w\<lparr>el := attach (leafNode env v) (el w)\<rparr>)) vs\<rparr>)"
    using Cons.prems by (intro Cons.IH) simp_all
  with step show ?case by (simp)
qed

lemma foldl_attach_last:
  "vs \<noteq> [] \<Longrightarrow>
     childNodes (foldl (\<lambda>n v. attach (leafNode env v) n) n0 vs) \<noteq> []
     \<and> kind (last (childNodes (foldl (\<lambda>n v. attach (leafNode env v) n) n0 vs)))
         = kind (leafNode env (last vs))
     \<and> nref (last (childNodes (foldl (\<lambda>n v. attach (leafNode env v) n) n0 vs)))
         = nref (leafNode env (last vs))
     \<and> (childNodes (leafNode env (last vs)) = [] \<longrightarrow>
          last (childNodes (foldl (\<lambda>n v. attach (leafNode env v) n) n0 vs))
            = leafNode env (last vs))"
  by (induction vs arbitrary: n0 rule: rev_induct) (simp_all add: attach_last attach_last_leaf)

text \<open>
  Claim C6, amended. On an element that nothing else refers to, \<open>addChildren\<close> returns
  for every child value that involves no user code (primitives, functions, nodes and
  objects without append hooks, the objects with a prototype and without \<open>toElement\<close>,
  \<open>toString\<close> or \<open>valueOf\<close> of their own, arrays of such values without append hooks). It
  calls no user function; the node afterwards is the node before with the node of each
  leaf appended in turn; and unless the value flattens to no leaf at all, the node has
  children afterwards, the last of them being the node of the last leaf: it has the
  kind and the identity of that node, and is that node when that node has no children
  of its own.
\<close>

theorem plain_children_total:
  "isElement (el w) \<and> nref (el w) = None \<and> plainChild v \<longrightarrow>
     (\<exists>w'. addChildren env v w = Inr w' \<and> trace w' = trace w
        \<and> el w' = foldl (\<lambda>n x. attach (leafNode env x) n) (el w) (flatten v)
        \<and> (flatten v \<noteq> [] \<longrightarrow>
             childNodes (el w') \<noteq> []
             \<and> kind (last (childNodes (el w'))) = kind (leafNode env (last (flatten v)))
             \<and> nref (last (childNodes (el w'))) = nref (leafNode env (last (flatten v)))
             \<and> (childNodes (leafNode env (last (flatten v))) = [] \<longrightarrow>
                  last (childNodes (el w')) = leafNode env (last (flatten v)))))"
proof
  assume h: "isElement (el w) \<and> nref (el w) = None \<and> plainChild v"
  let ?n = "foldl (\<lambda>n v. attach (leafNode env v) n) (el w) (flatten v)"
  from h plain_flatten(1)[of v] have nh: "\<not> arrayHooks v"
    and lv: "\<forall>x \<in> set (flatten v). plainChild x \<and> \<not> isArray x" by auto
  from flatten_run(1)[of v env w] nh
  have "addChildren env v w = forEachW (addChildren env) (flatten v) w" by simp
  with plain_leaves_run[OF lv, of w env] h
  have r: "addChildren env v w = Inr (w\<lparr>el := ?n\<rparr>)" by simp
  from foldl_attach_last[of "flatten v" env "el w"]
  have "flatten v \<noteq> [] \<longrightarrow> childNodes ?n \<noteq> []
      \<and> kind (last (childNodes ?n)) = kind (leafNode env (last (flatten v)))
      \<and> nref (last (childNodes ?n)) = nref (leafNode env (last (flatten v)))
      \<and> (childNodes (leafNode env (last (flatten v))) = [] \<longrightarrow>
            last (childNodes ?n) = leafNode env (last (flatten v)))"
    by blast
  with r show "\<exists>w'. addChildren env v w = Inr w' \<and> trace w' = trace w
        \<and> el w' = foldl (\<lambda>n x. attach (leafNode env x) n) (el w) (flatten v)
        \<and> (flatten v \<noteq> [] \<longrightarrow>
             childNodes (el w') \<noteq> []
             \<and> kind (last (childNodes (el w'))) = kind (leafNode env (last (flatten v)))
             \<and> nref (last (childNodes (el w'))) = nref (leafNode env (last (flatten v)))
             \<and> (childNodes (leafNode env (last (flatten v))) = [] \<longrightarrow>
                  last (childNodes (el w')) = leafNode env (last (flatten v))))"
    by simp
qed

text \<open>
  \<open>addChildren\<close> is not total: an empty array appends nothing, and an object without a
  prototype and without \<open>toString\<close> has no string form, so \<open>'' + children\<close> raises
  \<open>TypeError\<close>.
\<close>

theorem addChildren_not_total_counterexample:
  "addChildren demoEnv (VArr [] []) divWorld = Inr divWorld
   \<and> addChildren demoEnv (VObj NullProto [] []) divWorld = Inl (TypeError, divWorld)"
  by (simp add: run_defs viaValueOf_def)

text \<open>
  A node has one place: with \<open>[span, p]\<close>, where the value shows \<open>p\<close> still holding the \<open>span\<close>,
  the \<open>span\<close> is a child of the target and no longer under \<open>p\<close>.
\<close>

theorem plain_children_total_witness:
  "isElement (el divWorld) \<and> nref (el divWorld) = None
   \<and> plainChild (VArr [VNode spanNode, VNode paraWithSpan] [])
   \<and> addChildren demoEnv (VArr [VNode spanNode, VNode paraWithSpan] []) divWorld =
       Inr \<lparr>el = Node None (ElementNode ''div'') emptyShell [] [] [spanNode, paraNode],
             trace = []\<rparr>
   \<and> kind (last [spanNode, paraNode]) = kind paraWithSpan
   \<and> nref (last [spanNode, paraNode]) = nref paraWithSpan"
proof -
  let ?v = "VArr [VNode spanNode, VNode paraWithSpan] []"
  let ?r = "\<lparr>el = Node None (ElementNode ''div'') emptyShell [] [] [spanNode, paraNode],
             trace = []\<rparr>"
  have a: "isElement (el divWorld) \<and> nref (el divWorld) = None \<and> plainChild ?v"
    by (simp add: divWorld_def divNode_def hasHook_def methodOf_def spanNode_def paraWithSpan_def)
  have b: "addChildren demoEnv ?v divWorld = Inr ?r"
    by (simp add: run_defs)
  have c: "flatten ?v \<noteq> [] \<and> leafNode demoEnv (last (flatten ?v)) = paraWithSpan" by simp
  from plain_children_total[of divWorld ?v demoEnv] a
  obtain w' where w': "addChildren demoEnv ?v divWorld = Inr w'"
    and k: "flatten ?v \<noteq> [] \<longrightarrow>
             kind (last (childNodes (el w'))) = kind (leafNode demoEnv (last (flatten ?v)))
             \<and> nref (last (childNodes (el w'))) = nref (leafNode demoEnv (last (flatten ?v)))"
    by blast
  from w' b have "w' = ?r" by simp
  with k c have "kind (last [spanNode, paraNode]) = kind paraWithSpan
     \<and> nref (last [spanNode, paraNode]) = nref paraWithSpan" by simp
  with a b show ?thesis by simp
qed

lemma refsOfAll_append: "refsOfAll (xs @ ys) = refsOfAll xs @ refsOfAll ys"
  by (induction xs) simp_all

lemma detach_absent: "i \<notin> set (refsOfAll ns) \<Longrightarrow> detach i ns = ns"
  by (induction i ns rule: detach.induct) auto

lemma pruneAll_absent: "set present \<inter> set (refsOfAll ns) = {} \<Longrightarrow> pruneAll present ns = ns"
  by (induction present ns rule: pruneAll.induct) (auto simp: Int_Un_distrib split: option.splits)

lemma attach_fresh:
  "set (refsOf c) \<inter> set (refsOfAll (childNodes n)) = {} \<Longrightarrow>
     childNodes (attach c n) = childNodes n @ [c]"
proof (cases c)
  case (Node r k sh ps st cs)
  assume d: "set (refsOf c) \<inter> set (refsOfAll (childNodes n)) = {}"
  with Node have kids: "(case r of Some i \<Rightarrow> detach i (childNodes n) | None \<Rightarrow> childNodes n)
                          = childNodes n"
    by (cases r) (auto simp: detach_absent)
  from d Node have "set (refsOfAll (childNodes n)) \<inter> set (refsOfAll cs) = {}" by auto
  then have "pruneAll (refsOfAll (childNodes n)) cs = cs" by (rule pruneAll_absent)
  with Node kids show ?thesis by (simp add: attach_def Let_def)
qed

lemma foldl_attach_children:
  "distinct (refsOfAll (childNodes n0 @ cs)) \<Longrightarrow>
     childNodes (foldl (\<lambda>n c. attach c n) n0 cs) = childNodes n0 @ cs"
proof (induction cs arbitrary: n0)
  case Nil
  then show ?case by simp
next
  case (Cons c cs)
  from Cons.prems have "set (refsOf c) \<inter> set (refsOfAll (childNodes n0)) = {}"
    by (auto simp: refsOfAll_append)
  then have step: "childNodes (attach c n0) = childNodes n0 @ [c]" by (rule attach_fresh)
  with Cons.prems have "distinct (refsOfAll (childNodes (attach c n0) @ cs))"
    by (simp add: refsOfAll_append)
  from Cons.IH[OF this] step show ?case by simp
qed

lemma foldl_leaf_map:
  "foldl (\<lambda>n v. attach (leafNode env v) n) n0 vs = foldl (\<lambda>n c. attach c n) n0 (map (leafNode env) vs)"
  by (induction vs arbitrary: n0) simp_all

text \<open>
  Claim C3, amended. A nested sequence is processed as the list of its leaves, left to
  right and depth first, whatever the nesting: when no array in \<open>S\<close> carries an append
  hook, \<open>addChildren\<close> on \<open>S\<close> is \<open>addChildren\<close> on each leaf in that order. When moreover \<open>S\<close>
  involves no user code, the target is an element that nothing else refers to, and no
  node identity occurs twice among the present children and the nodes of the leaves,
  the call returns and the children are the former children followed by the nodes of
  the leaves in exactly that order.
\<close>

theorem nested_sequence_order:
  "(\<not> arrayHooks S \<longrightarrow> addChildren env S w = forEachW (addChildren env) (flatten S) w)
   \<and> (plainChild S \<and> isElement (el w) \<and> nref (el w) = None
       \<and> distinct (refsOfAll (childNodes (el w) @ map (leafNode env) (flatten S))) \<longrightarrow>
      (\<exists>w'. addChildren env S w = Inr w'
         \<and> childNodes (el w') = childNodes (el w) @ map (leafNode env) (flatten S)))"
proof (intro conjI impI)
  assume "\<not> arrayHooks S"
  with flatten_run(1)[of S env w]
  show "addChildren env S w = forEachW (addChildren env) (flatten S) w" by simp
next
  assume h: "plainChild S \<and> isElement (el w) \<and> nref (el w) = None
       \<and> distinct (refsOfAll (childNodes (el w) @ map (leafNode env) (flatten S)))"
  let ?n = "foldl (\<lambda>n v. attach (leafNode env v) n) (el w) (flatten S)"
  from h plain_flatten(1)[of S] have nh: "\<not> arrayHooks S"
    and lv: "\<forall>x \<in> set (flatten S). plainChild x \<and> \<not> isArray x" by auto
  from flatten_run(1)[of S env w] nh
  have "addChildren env S w = forEachW (addChildren env) (flatten S) w" by simp
  with plain_leaves_run[OF lv, of w env] h
  have r: "addChildren env S w = Inr (w\<lparr>el := ?n\<rparr>)" by simp
  from h foldl_attach_children[of "el w" "map (leafNode env) (flatten S)"]
  have "childNodes ?n = childNodes (el w) @ map (leafNode env) (flatten S)"
    by (simp add: foldl_leaf_map)
  with r show "\<exists>w'. addChildren env S w = Inr w'
         \<and> childNodes (el w') = childNodes (el w) @ map (leafNode env) (flatten S)"
    by simp
qed

text \<open>
  A node that occurs twice in the sequence is moved by the second \<open>appendChild\<close>, not
  copied: for \<open>[span, p, span]\<close> the children are \<open>p, span\<close>, so the first element of the
  sequence is not the first child.
\<close>

theorem repeated_node_counterexample:
  "flatten (VArr [VNode spanNode, VNode paraNode, VNode spanNode] []) =
     [VNode spanNode, VNode paraNode, VNode spanNode]
   \<and> addChildren demoEnv (VArr [VNode spanNode, VNode paraNode, VNode spanNode] []) divWorld =
       Inr \<lparr>el = Node None (ElementNode ''div'') emptyShell [] [] [paraNode, spanNode],
             trace = []\<rparr>"
  by (simp add: run_defs)

theorem nested_sequence_order_witness:
  "plainChild (VArr [VNode spanNode, VArr [VStr ''a'', VArr [VUndefined] []] [], VNode paraNode] [])
   \<and> isElement (el divWorld) \<and> nref (el divWorld) = None
   \<and> distinct (refsOfAll (childNodes (el divWorld) @ map (leafNode demoEnv)
        (flatten (VArr [VNode spanNode, VArr [VStr ''a'', VArr [VUndefined] []] [], VNode paraNode] []))))
   \<and> addChildren demoEnv
        (VArr [VNode spanNode, VArr [VStr ''a'', VArr [VUndefined] []] [], VNode paraNode] [])
        divWorld =
       Inr \<lparr>el = Node None (ElementNode ''div'') emptyShell [] []
                   [spanNode, createTextNode ''a'', createComment ''undefined'', paraNode],
             trace = []\<rparr>"
proof -
  let ?S = "VArr [VNode spanNode, VArr [VStr ''a'', VArr [VUndefined] []] [], VNode paraNode] []"
  have a: "plainChild ?S \<and> isElement (el divWorld) \<and> nref (el divWorld) = None
           \<and> distinct (refsOfAll (childNodes (el divWorld) @ map (leafNode demoEnv) (flatten ?S)))"
    by (simp add: divWorld_def divNode_def hasHook_def methodOf_def spanNode_def paraNode_def
          createTextNode_def createComment_def builtinToString_def)
  have b: "addChildren demoEnv ?S divWorld =
       Inr \<lparr>el = Node None (ElementNode ''div'') emptyShell [] []
                   [spanNode, createTextNode ''a'', createComment ''undefined'', paraNode],
             trace = []\<rparr>"
    by (simp add: run_defs)
  from nested_sequence_order[of ?S demoEnv divWorld] a b
  show ?thesis by simp
qed

subsection \<open>Append hooks\<close>

lemma hook_method_cases:
  "methodOf v ''onbeforeappend'' \<noteq> Some Native" "methodOf v ''onappend'' \<noteq> Some Native"
  by (auto simp: methodOf_def split: option.splits jsval.splits)

lemma falsy_no_hook:
  "\<not> truthy v \<Longrightarrow> methodOf v ''onbeforeappend'' = None \<and> methodOf v ''onappend'' = None"
  by (cases v) (simp_all add: methodOf_def)

lemma beforeAppend_trace:
  assumes "beforeAppend env v w = Inr w1"
  shows "trace w1 = trace w @ hookCall BeforeAppend ''onbeforeappend'' v (el w)"
proof (cases "truthy v")
  case False
  with assms falsy_no_hook[OF False] show ?thesis by (simp add: beforeAppend_def hookCall_def)
next
  case True
  with assms show ?thesis
    by (auto simp: beforeAppend_def callHook_def hookCall_def Let_def split: option.splits callee.splits)
qed

lemma afterAppend_trace:
  assumes "afterAppend env v w = Inr w1"
  shows "trace w1 = trace w @ hookCall AfterAppend ''onappend'' v (el w)"
proof (cases "truthy v")
  case False
  with assms falsy_no_hook[OF False] show ?thesis by (simp add: afterAppend_def hookCall_def)
next
  case True
  with assms show ?thesis
    by (auto simp: afterAppend_def callHook_def hookCall_def Let_def split: option.splits callee.splits)
qed

lemma hostStep_trace: "hostStep f w = Inr w' \<Longrightarrow> trace w' = trace w"
  by (auto simp: hostStep_def split: sum.splits)

lemma invoke_trace:
  assumes "invoke env r c v w k = Inr w'"
    and "\<And>x u u'. k x u = Inr u' \<Longrightarrow> trace u' = trace u"
  shows "\<exists>mid. trace w' = trace w @ mid \<and> (\<forall>ev \<in> set mid. \<exists>f. ev = Call r f v None)"
proof (cases c)
  case (User f)
  with assms(1) obtain x where "k x (w\<lparr>trace := trace w @ [Call r f v None]\<rparr>) = Inr w'"
    by (auto simp: invoke_def Let_def split: sum.splits)
  from assms(2)[OF this] have "trace w' = trace w @ [Call r f v None]" by simp
  then show ?thesis by auto
next
  case Native
  with assms(1) obtain s where "k (VStr s) w = Inr w'"
    by (auto simp: invoke_def split: sum.splits)
  from assms(2)[OF this] show ?thesis by simp
qed

lemma withString_trace:
  "withString r w (\<lambda>s. hostStep (g s)) = Inr w' \<Longrightarrow> trace w' = trace w"
  by (auto simp: withString_def dest: hostStep_trace split: sum.splits)

lemma appendOne_trace:
  assumes "appendOne env v w = Inr w'"
  shows "\<exists>mid. trace w' = trace w @ mid
           \<and> (\<forall>ev \<in> set mid. \<exists>r f. ev = Call r f v None \<and> (r = ToElement \<or> r = ToStringCall))"
proof (cases "isNodeValue v \<or> isNullish v")
  case True
  with assms have "trace w' = trace w"
    by (cases v) (auto simp: appendOne_def dest: hostStep_trace withString_trace)
  then show ?thesis by simp
next
  case False
  show ?thesis
  proof (cases "methodOf v ''toElement''")
    case (Some c)
    with False assms
    have "invoke env ToElement c v w (\<lambda>r. hostStep (appendValue r)) = Inr w'"
      by (cases v) (simp_all add: appendOne_def)
    from invoke_trace[OF this] hostStep_trace show ?thesis by blast
  next
    case None
    note ne = None
    show ?thesis
    proof (cases "methodOf v ''toString''")
      case None
      with ne False assms
      have "withString (concatEmpty env v) w (\<lambda>s. hostStep (appendChild (createTextNode s))) = Inr w'"
        by (cases v) (simp_all add: appendOne_def)
      from withString_trace[OF this] show ?thesis by simp
    next
      case (Some c)
      with ne False assms
      have "invoke env ToStringCall c v w
              (\<lambda>r w. withString (toStringJS env r) w
                        (\<lambda>s. hostStep (appendChild (createTextNode s)))) = Inr w'"
        by (cases v) (simp_all add: appendOne_def)
      then obtain mid where "trace w' = trace w @ mid"
        "\<forall>ev \<in> set mid. \<exists>f. ev = Call ToStringCall f v None"
        using invoke_trace withString_trace by meson
      then show ?thesis by blast
    qed
  qed
qed

lemma hookCall_receiver: "ev \<in> set (hookCall r name v n) \<Longrightarrow> receiver ev = v"
  by (auto simp: hookCall_def split: option.splits callee.splits)

lemma hookCall_own:
  "r = BeforeAppend \<or> r = AfterAppend \<Longrightarrow> ownHookCalls v (hookCall r name v n) = hookCall r name v n"
  by (auto simp: hookCall_def ownHookCalls_def split: option.splits callee.splits)

lemma addChildren_decompose:
  "addChildren env v w = Inr w' \<Longrightarrow>
     \<exists>w1 w2. beforeAppend env v w = Inr w1
       \<and> (case v of VArr xs ps \<Rightarrow> addEach env xs w1 | _ \<Rightarrow> appendOne env v w1) = Inr w2
       \<and> afterAppend env v w2 = Inr w'"
  by (simp add: addChildren.simps split: sum.splits)

lemma leaf_receivers:
  assumes "\<not> isArray v" "addChildren env v w = Inr w'"
  shows "\<exists>added. trace w' = trace w @ added \<and> (\<forall>ev \<in> set added. receiver ev = v)"
proof -
  from addChildren_decompose[OF assms(2)] obtain w1 w2 where
    b: "beforeAppend env v w = Inr w1"
    and m: "(case v of VArr xs ps \<Rightarrow> addEach env xs w1 | _ \<Rightarrow> appendOne env v w1) = Inr w2"
    and a: "afterAppend env v w2 = Inr w'" by blast
  from assms(1) m have "appendOne env v w1 = Inr w2" by (cases v) simp_all
  from appendOne_trace[OF this] obtain mid where
    mid: "trace w2 = trace w1 @ mid" "\<forall>ev \<in> set mid. receiver ev = v" by fastforce
  let ?B = "hookCall BeforeAppend ''onbeforeappend'' v (el w)"
  let ?A = "hookCall AfterAppend ''onappend'' v (el w2)"
  from beforeAppend_trace[OF b] afterAppend_trace[OF a] mid
  have "trace w' = trace w @ (?B @ mid @ ?A)" by simp
  moreover have "\<forall>ev \<in> set (?B @ mid @ ?A). receiver ev = v"
    using mid(2) hookCall_receiver by auto
  ultimately show ?thesis by blast
qed

lemma leaf_bound:
  assumes "\<not> isArray v"
  shows "\<forall>w w'. addChildren env v w = Inr w' \<longrightarrow>
      (\<exists>added. trace w' = trace w @ added \<and> (\<forall>ev \<in> set added. size (receiver ev) \<le> size v))"
proof (intro allI impI)
  fix w w' assume "addChildren env v w = Inr w'"
  from leaf_receivers[OF assms this] obtain added where
    "trace w' = trace w @ added" "\<forall>ev \<in> set added. receiver ev = v" by blast
  then have "trace w' = trace w @ added \<and> (\<forall>ev \<in> set added. size (receiver ev) \<le> size v)"
    by simp
  then show "\<exists>added. trace w' = trace w @ added \<and> (\<forall>ev \<in> set added. size (receiver ev) \<le> size v)"
    by blast
qed

lemma size_member: "x \<in> set xs \<Longrightarrow> size x < size_list size xs"
  by (induction xs) auto

lemma trace_receivers:
  "(\<forall>w w'. addChildren env v w = Inr w' \<longrightarrow>
      (\<exists>added. trace w' = trace w @ added \<and> (\<forall>ev \<in> set added. size (receiver ev) \<le> size v)))"
  "(\<forall>w w'. addEach env xs w = Inr w' \<longrightarrow>
      (\<exists>added. trace w' = trace w @ added
         \<and> (\<forall>ev \<in> set added. size (receiver ev) < size_list size xs)))"
proof (induction v and xs rule: flatten_flattenAll.induct)
  case (1 xs ps)
  show ?case
  proof (intro allI impI)
    fix w w' assume r: "addChildren env (VArr xs ps) w = Inr w'"
    from addChildren_decompose[OF r] obtain w1 w2 where
      b: "beforeAppend env (VArr xs ps) w = Inr w1"
      and m: "addEach env xs w1 = Inr w2"
      and a: "afterAppend env (VArr xs ps) w2 = Inr w'" by auto
    from 1 m obtain mid where
      mid: "trace w2 = trace w1 @ mid" "\<forall>ev \<in> set mid. size (receiver ev) < size_list size xs"
      by blast
    let ?B = "hookCall BeforeAppend ''onbeforeappend'' (VArr xs ps) (el w)"
    let ?A = "hookCall AfterAppend ''onappend'' (VArr xs ps) (el w2)"
    from beforeAppend_trace[OF b] afterAppend_trace[OF a] mid
    have "trace w' = trace w @ (?B @ mid @ ?A)" by simp
    moreover have "\<forall>ev \<in> set (?B @ mid @ ?A). size (receiver ev) \<le> size (VArr xs ps)"
      using mid(2) hookCall_receiver[of _ BeforeAppend "''onbeforeappend''" "VArr xs ps" "el w"]
        hookCall_receiver[of _ AfterAppend "''onappend''" "VArr xs ps" "el w2"]
      by fastforce
    ultimately show "\<exists>added. trace w' = trace w @ added
        \<and> (\<forall>ev \<in> set added. size (receiver ev) \<le> size (VArr xs ps))" by blast
  qed
next
  case 3
  show ?case by simp
next
  case (4 x xs)
  show ?case
  proof (intro allI impI)
    fix w w' assume r: "addEach env (x # xs) w = Inr w'"
    then obtain w1 where s1: "addChildren env x w = Inr w1" and s2: "addEach env xs w1 = Inr w'"
      by (auto split: sum.splits)
    from 4(1) s1 obtain a1 where a1: "trace w1 = trace w @ a1"
      "\<forall>ev \<in> set a1. size (receiver ev) \<le> size x" by blast
    from 4(2) s2 obtain a2 where a2: "trace w' = trace w1 @ a2"
      "\<forall>ev \<in> set a2. size (receiver ev) < size_list size xs" by blast
    from a1 a2 have "trace w' = trace w @ (a1 @ a2)" by simp
    moreover from a1(2) a2(2)
    have "\<forall>ev \<in> set (a1 @ a2). size (receiver ev) < size_list size (x # xs)" by fastforce
    ultimately show "\<exists>added. trace w' = trace w @ added
        \<and> (\<forall>ev \<in> set added. size (receiver ev) < size_list size (x # xs))" by blast
  qed
qed (rule leaf_bound, simp)+

lemma own_calls_smaller:
  "\<forall>ev \<in> set mid. size (receiver ev) < size v \<Longrightarrow> ownHookCalls v mid = []"
  by (induction mid) (auto simp: ownHookCalls_def elim: isOwnHookCall.elims)

lemma own_calls_producers:
  "\<forall>ev \<in> set mid. \<exists>r f. ev = Call r f v None \<and> (r = ToElement \<or> r = ToStringCall) \<Longrightarrow>
     ownHookCalls u mid = []"
  by (induction mid) (auto simp: ownHookCalls_def)

lemma ownHookCalls_append: "ownHookCalls v (xs @ ys) = ownHookCalls v xs @ ownHookCalls v ys"
  by (simp add: ownHookCalls_def)

lemma middle_trace:
  assumes "(case v of VArr xs ps \<Rightarrow> addEach env xs w1 | _ \<Rightarrow> appendOne env v w1) = Inr w2"
  shows "\<exists>mid. trace w2 = trace w1 @ mid \<and> ownHookCalls v mid = []"
proof (cases "isArray v")
  case True
  then obtain xs ps where v: "v = VArr xs ps" by (cases v) simp_all
  with assms have "addEach env xs w1 = Inr w2" by simp
  with trace_receivers(2)[of env xs] obtain mid where
    mid: "trace w2 = trace w1 @ mid" "\<forall>ev \<in> set mid. size (receiver ev) < size_list size xs"
    by blast
  from mid(2) v have "\<forall>ev \<in> set mid. size (receiver ev) < size v" by fastforce
  from own_calls_smaller[OF this] mid(1) show ?thesis by blast
next
  case False
  with assms have "appendOne env v w1 = Inr w2" by (cases v) simp_all
  from appendOne_trace[OF this] obtain mid where
    mid: "trace w2 = trace w1 @ mid"
      "\<forall>ev \<in> set mid. \<exists>r f. ev = Call r f v None \<and> (r = ToElement \<or> r = ToStringCall)"
    by blast
  from own_calls_producers[OF mid(2)] mid(1) show ?thesis by blast
qed

lemma toElement_not_native: "methodOf v ''toElement'' \<noteq> Some Native"
  by (auto simp: methodOf_def split: option.splits jsval.splits)

lemma beforeAppend_pin:
  assumes "beforeAppend env v w = Inr w1"
  shows "(case methodOf v ''onbeforeappend'' of
            Some (User b) \<Rightarrow>
              snd (hook env b v (el w)) = None
              \<and> w1 = \<lparr>el = fst (hook env b v (el w)),
                       trace = trace w @ [Call BeforeAppend b v (Some (el w))]\<rparr>
          | _ \<Rightarrow> w1 = w)"
proof (cases "truthy v")
  case False
  with assms falsy_no_hook[OF False] show ?thesis by (simp add: beforeAppend_def)
next
  case True
  with assms show ?thesis
    by (auto simp: beforeAppend_def callHook_def Let_def split: option.splits callee.splits)
qed

lemma afterAppend_pin:
  assumes "afterAppend env v w2 = Inr w'"
  shows "(case methodOf v ''onappend'' of
            Some (User a) \<Rightarrow>
              snd (hook env a v (el w2)) = None
              \<and> w' = \<lparr>el = fst (hook env a v (el w2)),
                       trace = trace w2 @ [Call AfterAppend a v (Some (el w2))]\<rparr>
          | _ \<Rightarrow> w' = w2)"
proof (cases "truthy v")
  case False
  with assms falsy_no_hook[OF False] show ?thesis by (simp add: afterAppend_def)
next
  case True
  with assms show ?thesis
    by (auto simp: afterAppend_def callHook_def Let_def split: option.splits callee.splits)
qed

lemma hostStep_appendChild_el:
  "hostStep (appendChild c) w = Inr w' \<Longrightarrow> el w' = attach c (el w)"
  by (auto simp: hostStep_def appendChild_def split: sum.splits if_splits)

lemma hostStep_appendValue_el:
  "hostStep (appendValue r) w = Inr w' \<Longrightarrow> \<exists>c. r = VNode c \<and> el w' = attach c (el w)"
  by (cases r) (auto simp: hostStep_def appendChild_def split: sum.splits if_splits)

lemma appendOne_produced:
  assumes "\<not> isNodeValue v" "\<not> isNullish v" "appendOne env v w1 = Inr w2"
  shows "\<exists>c. producedNode env v = Some c \<and> el w2 = attach c (el w1)"
proof (cases "methodOf v ''toElement''")
  case (Some m)
  with toElement_not_native[of v] obtain f where f: "methodOf v ''toElement'' = Some (User f)"
    by (cases m) simp_all
  with assms obtain r where r: "produce env f v = Inr r"
    and h: "hostStep (appendValue r) (w1\<lparr>trace := trace w1 @ [Call ToElement f v None]\<rparr>) = Inr w2"
    by (auto simp: appendOne_other invoke_def Let_def split: sum.splits)
  from hostStep_appendValue_el[OF h] obtain c where "r = VNode c" "el w2 = attach c (el w1)"
    by auto
  with f r show ?thesis by (simp add: producedNode_def)
next
  case None
  note ne = None
  show ?thesis
  proof (cases "methodOf v ''toString''")
    case None
    with ne assms obtain s where s: "concatEmpty env v = Inr s"
      and h: "hostStep (appendChild (createTextNode s)) w1 = Inr w2"
      by (auto simp: appendOne_other withString_def split: sum.splits)
    from hostStep_appendChild_el[OF h] s ne None show ?thesis by (simp add: producedNode_def)
  next
    case (Some m)
    show ?thesis
    proof (cases m)
      case (User f)
      with Some ne assms obtain r s where r: "produce env f v = Inr r"
        and s: "toStringJS env r = Inr s"
        and h: "hostStep (appendChild (createTextNode s))
                  (w1\<lparr>trace := trace w1 @ [Call ToStringCall f v None]\<rparr>) = Inr w2"
        by (auto simp: appendOne_other invoke_def withString_def Let_def split: sum.splits)
      from hostStep_appendChild_el[OF h] r s ne Some User show ?thesis
        by (simp add: producedNode_def)
    next
      case Native
      with Some ne assms obtain s where s: "builtinToString env v = Inr s"
        and h: "hostStep (appendChild (createTextNode s)) w1 = Inr w2"
        by (auto simp: appendOne_other invoke_def withString_def Let_def split: sum.splits)
      from hostStep_appendChild_el[OF h] s ne Some Native show ?thesis
        by (simp add: producedNode_def)
    qed
  qed
qed

lemma appendOne_content:
  assumes "\<not> isArray v" "appendOne env v w1 = Inr w2"
  shows "\<exists>c. contentNode env v = Some c \<and> el w2 = attach c (el w1)"
proof (cases "isNodeValue v \<or> isNullish v")
  case True
  with assms show ?thesis
    by (cases v)
       (auto simp: appendOne_def concatEmpty_def withString_def dest: hostStep_appendChild_el)
next
  case False
  then have "contentNode env v = producedNode env v" using assms(1) by (cases v) simp_all
  with appendOne_produced[OF _ _ assms(2)] False show ?thesis by simp
qed

lemma hookCall_length: "length (hookCall r name v n) \<le> 1"
  by (simp add: hookCall_def split: option.splits callee.splits)

text \<open>
  Claim C5. When \<open>addChildren\<close> returns for a value \<open>v\<close> and a parent, it has run in three
  steps. First the before-append hook of \<open>v\<close>, if \<open>v\<close> has one, was run with the parent as
  it was on entry, before anything of \<open>v\<close> was appended; it returned, and the parent went
  on as the hook left it. Then the content was appended to that parent: for a value
  that is not an array, the node that the value stands for; for an array, by
  processing its elements in order, which for elements without user code appends the
  nodes of the leaves in order. In this step no append hook was called with \<open>v\<close> itself
  as receiver. Last the after-append hook of \<open>v\<close>, if \<open>v\<close> has one, was run with the parent
  as the second step left it, so with the content of \<open>v\<close> among its children, and the
  call returns the parent as this hook left it. So among the calls recorded during the
  whole run, the append-hook calls with receiver \<open>v\<close> are exactly these, each at most
  once, also when \<open>v\<close> is an array whose elements have hooks of their own.
\<close>

theorem append_hooks_once:
  "addChildren env v w = Inr w' \<longrightarrow>
     (\<exists>w1 w2 mid.
        (case methodOf v ''onbeforeappend'' of
           Some (User b) \<Rightarrow>
             snd (hook env b v (el w)) = None
             \<and> w1 = \<lparr>el = fst (hook env b v (el w)),
                      trace = trace w @ [Call BeforeAppend b v (Some (el w))]\<rparr>
         | _ \<Rightarrow> w1 = w)
        \<and> (case v of
              VArr xs ps \<Rightarrow>
                forEachW (addChildren env) xs w1 = Inr w2
                \<and> (plainChildren xs \<and> isElement (el w1) \<and> nref (el w1) = None \<longrightarrow>
                     el w2 = foldl (\<lambda>n x. attach (leafNode env x) n) (el w1) (flattenAll xs))
            | _ \<Rightarrow>
                (\<exists>c. contentNode env v = Some c \<and> el w2 = attach c (el w1)
                   \<and> childNodes (el w2) \<noteq> []
                   \<and> kind (last (childNodes (el w2))) = kind c
                   \<and> nref (last (childNodes (el w2))) = nref c
                   \<and> (childNodes c = [] \<longrightarrow> last (childNodes (el w2)) = c)))
        \<and> trace w2 = trace w1 @ mid \<and> ownHookCalls v mid = []
        \<and> (case methodOf v ''onappend'' of
             Some (User a) \<Rightarrow>
               snd (hook env a v (el w2)) = None
               \<and> w' = \<lparr>el = fst (hook env a v (el w2)),
                        trace = trace w2 @ [Call AfterAppend a v (Some (el w2))]\<rparr>
           | _ \<Rightarrow> w' = w2)
        \<and> trace w' = trace w @ hookCall BeforeAppend ''onbeforeappend'' v (el w) @ mid
                        @ hookCall AfterAppend ''onappend'' v (el w2)
        \<and> ownHookCalls v (hookCall BeforeAppend ''onbeforeappend'' v (el w) @ mid
                            @ hookCall AfterAppend ''onappend'' v (el w2))
             = hookCall BeforeAppend ''onbeforeappend'' v (el w)
               @ hookCall AfterAppend ''onappend'' v (el w2)
        \<and> length (hookCall BeforeAppend ''onbeforeappend'' v (el w)) \<le> 1
        \<and> length (hookCall AfterAppend ''onappend'' v (el w2)) \<le> 1)"
proof
  assume r: "addChildren env v w = Inr w'"
  from addChildren_decompose[OF r] obtain w1 w2 where
    b: "beforeAppend env v w = Inr w1"
    and m: "(case v of VArr xs ps \<Rightarrow> addEach env xs w1 | _ \<Rightarrow> appendOne env v w1) = Inr w2"
    and a: "afterAppend env v w2 = Inr w'" by blast
  from middle_trace[OF m] obtain mid where
    mid: "trace w2 = trace w1 @ mid" "ownHookCalls v mid = []" by blast
  let ?B = "hookCall BeforeAppend ''onbeforeappend'' v (el w)"
  let ?A = "hookCall AfterAppend ''onappend'' v (el w2)"
  have content: "(case v of
              VArr xs ps \<Rightarrow>
                forEachW (addChildren env) xs w1 = Inr w2
                \<and> (plainChildren xs \<and> isElement (el w1) \<and> nref (el w1) = None \<longrightarrow>
                     el w2 = foldl (\<lambda>n x. attach (leafNode env x) n) (el w1) (flattenAll xs))
            | _ \<Rightarrow>
                (\<exists>c. contentNode env v = Some c \<and> el w2 = attach c (el w1)
                   \<and> childNodes (el w2) \<noteq> []
                   \<and> kind (last (childNodes (el w2))) = kind c
                   \<and> nref (last (childNodes (el w2))) = nref c
                   \<and> (childNodes c = [] \<longrightarrow> last (childNodes (el w2)) = c)))"
  proof (cases "isArray v")
    case True
    then obtain xs ps where v: "v = VArr xs ps" by (cases v) simp_all
    with m have e: "addEach env xs w1 = Inr w2" by simp
    have "el w2 = foldl (\<lambda>n x. attach (leafNode env x) n) (el w1) (flattenAll xs)"
      if h: "plainChildren xs \<and> isElement (el w1) \<and> nref (el w1) = None"
    proof -
      from h plain_flatten(2)[of xs] have nh: "\<not> arrayHooksAny xs"
        and lv: "\<forall>x \<in> set (flattenAll xs). plainChild x \<and> \<not> isArray x" by auto
      from flatten_run(2)[of xs env w1] nh
      have "addEach env xs w1 = forEachW (addChildren env) (flattenAll xs) w1" by simp
      with plain_leaves_run[OF lv, of w1 env] h e
      have "w2 = w1\<lparr>el := foldl (\<lambda>n x. attach (leafNode env x) n) (el w1) (flattenAll xs)\<rparr>"
        by simp
      then show ?thesis by simp
    qed
    with e v show ?thesis by (simp add: addEach_forEachW)
  next
    case False
    with m have o: "appendOne env v w1 = Inr w2" by (cases v) simp_all
    from appendOne_content[OF False o] obtain c where
      c: "contentNode env v = Some c" "el w2 = attach c (el w1)" by blast
    from c(2) attach_last[of c "el w1"] attach_last_leaf[of c "el w1"]
    have "childNodes (el w2) \<noteq> []
          \<and> kind (last (childNodes (el w2))) = kind c
          \<and> nref (last (childNodes (el w2))) = nref c
          \<and> (childNodes c = [] \<longrightarrow> last (childNodes (el w2)) = c)" by simp
    with c have "\<exists>c. contentNode env v = Some c \<and> el w2 = attach c (el w1)
                   \<and> childNodes (el w2) \<noteq> []
                   \<and> kind (last (childNodes (el w2))) = kind c
                   \<and> nref (last (childNodes (el w2))) = nref c
                   \<and> (childNodes c = [] \<longrightarrow> last (childNodes (el w2)) = c)" by blast
    with False show ?thesis by (cases v; hypsubst; simp only: jsval.case isArray.simps)
  qed
  have own: "ownHookCalls v (?B @ mid @ ?A) = ?B @ ?A"
    using mid(2) by (simp add: ownHookCalls_append hookCall_own)
  have tr: "trace w' = trace w @ ?B @ mid @ ?A"
    using beforeAppend_trace[OF b] afterAppend_trace[OF a] mid(1) by simp
  from beforeAppend_pin[OF b] content mid afterAppend_pin[OF a] tr own
    hookCall_length[of BeforeAppend "''onbeforeappend''" v "el w"]
    hookCall_length[of AfterAppend "''onappend''" v "el w2"]
  show "\<exists>w1 w2 mid.
        (case methodOf v ''onbeforeappend'' of
           Some (User b) \<Rightarrow>
             snd (hook env b v (el w)) = None
             \<and> w1 = \<lparr>el = fst (hook env b v (el w)),
                      trace = trace w @ [Call BeforeAppend b v (Some (el w))]\<rparr>
         | _ \<Rightarrow> w1 = w)
        \<and> (case v of
              VArr xs ps \<Rightarrow>
                forEachW (addChildren env) xs w1 = Inr w2
                \<and> (plainChildren xs \<and> isElement (el w1) \<and> nref (el w1) = None \<longrightarrow>
                     el w2 = foldl (\<lambda>n x. attach (leafNode env x) n) (el w1) (flattenAll xs))
            | _ \<Rightarrow>
                (\<exists>c. contentNode env v = Some c \<and> el w2 = attach c (el w1)
                   \<and> childNodes (el w2) \<noteq> []
                   \<and> kind (last (childNodes (el w2))) = kind c
                   \<and> nref (last (childNodes (el w2))) = nref c
                   \<and> (childNodes c = [] \<longrightarrow> last (childNodes (el w2)) = c)))
        \<and> trace w2 = trace w1 @ mid \<and> ownHookCalls v mid = []
        \<and> (case methodOf v ''onappend'' of
             Some (User a) \<Rightarrow>
               snd (hook env a v (el w2)) = None
               \<and> w' = \<lparr>el = fst (hook env a v (el w2)),
                        trace = trace w2 @ [Call AfterAppend a v (Some (el w2))]\<rparr>
           | _ \<Rightarrow> w' = w2)
        \<and> trace w' = trace w @ hookCall BeforeAppend ''onbeforeappend'' v (el w) @ mid
                        @ hookCall AfterAppend ''onappend'' v (el w2)
        \<and> ownHookCalls v (hookCall BeforeAppend ''onbeforeappend'' v (el w) @ mid
                            @ hookCall AfterAppend ''onappend'' v (el w2))
             = hookCall BeforeAppend ''onbeforeappend'' v (el w)
               @ hookCall AfterAppend ''onappend'' v (el w2)
        \<and> length (hookCall BeforeAppend ''onbeforeappend'' v (el w)) \<le> 1
        \<and> length (hookCall AfterAppend ''onappend'' v (el w2)) \<le> 1"
    by blast
qed

theorem append_hooks_once_witness:
  "addChildren demoEnv
     (VArr [VStr ''a'', VNode hookedNode] [(''onbeforeappend'', VFun 8), (''onappend'', VFun 6)])
     divWorld =
   Inr \<lparr>el = Node None (ElementNode ''div'') emptyShell [(''seen'', VBool True)] []
               [createTextNode ''a'', hookedNode],
         trace =
           [Call BeforeAppend 8
              (VArr [VStr ''a'', VNode hookedNode] [(''onbeforeappend'', VFun 8), (''onappend'', VFun 6)])
              (Some divNode),
            Call AfterAppend 7 (VNode hookedNode)
              (Some (Node None (ElementNode ''div'') emptyShell [(''seen'', VBool True)] []
                       [createTextNode ''a'', hookedNode])),
            Call AfterAppend 6
              (VArr [VStr ''a'', VNode hookedNode] [(''onbeforeappend'', VFun 8), (''onappend'', VFun 6)])
              (Some (Node None (ElementNode ''div'') emptyShell [(''seen'', VBool True)] []
                       [createTextNode ''a'', hookedNode]))]\<rparr>
   \<and> ownHookCalls
        (VArr [VStr ''a'', VNode hookedNode] [(''onbeforeappend'', VFun 8), (''onappend'', VFun 6)])
        [Call BeforeAppend 8
              (VArr [VStr ''a'', VNode hookedNode] [(''onbeforeappend'', VFun 8), (''onappend'', VFun 6)])
              (Some divNode),
         Call AfterAppend 7 (VNode hookedNode)
              (Some (Node None (ElementNode ''div'') emptyShell [(''seen'', VBool True)] []
                       [createTextNode ''a'', hookedNode])),
         Call AfterAppend 6
              (VArr [VStr ''a'', VNode hookedNode] [(''onbeforeappend'', VFun 8), (''onappend'', VFun 6)])
              (Some (Node None (ElementNode ''div'') emptyShell [(''seen'', VBool True)] []
                       [createTextNode ''a'', hookedNode]))]
      = [Call BeforeAppend 8
              (VArr [VStr ''a'', VNode hookedNode] [(''onbeforeappend'', VFun 8), (''onappend'', VFun 6)])
              (Some divNode),
         Call AfterAppend 6
              (VArr [VStr ''a'', VNode hookedNode] [(''onbeforeappend'', VFun 8), (''onappend'', VFun 6)])
              (Some (Node None (ElementNode ''div'') emptyShell [(''seen'', VBool True)] []
                       [createTextNode ''a'', hookedNode]))]"
proof -
  let ?S = "VArr [VStr ''a'', VNode hookedNode] [(''onbeforeappend'', VFun 8), (''onappend'', VFun 6)]"
  let ?n = "Node None (ElementNode ''div'') emptyShell [(''seen'', VBool True)] []
               [createTextNode ''a'', hookedNode]"
  let ?r = "\<lparr>el = ?n,
         trace =
           [Call BeforeAppend 8 ?S (Some divNode),
            Call AfterAppend 7 (VNode hookedNode) (Some ?n),
            Call AfterAppend 6 ?S (Some ?n)]\<rparr>"
  have a: "addChildren demoEnv ?S divWorld = Inr ?r"
    by (simp add: run_defs)
  have b: "hookCall BeforeAppend ''onbeforeappend'' ?S (el divWorld) = [Call BeforeAppend 8 ?S (Some divNode)]"
    by (simp add: hookCall_def methodOf_def divWorld_def)
  have c: "methodOf ?S ''onappend'' = Some (User 6)" by (simp add: methodOf_def)
  from mp[OF append_hooks_once[of demoEnv ?S divWorld ?r] a] obtain w2 mid where
    w: "(case methodOf ?S ''onappend'' of
             Some (User a) \<Rightarrow>
               snd (hook demoEnv a ?S (el w2)) = None
               \<and> ?r = \<lparr>el = fst (hook demoEnv a ?S (el w2)),
                        trace = trace w2 @ [Call AfterAppend a ?S (Some (el w2))]\<rparr>
           | _ \<Rightarrow> ?r = w2)"
    and t: "trace ?r = trace divWorld @ hookCall BeforeAppend ''onbeforeappend'' ?S (el divWorld) @ mid
                        @ hookCall AfterAppend ''onappend'' ?S (el w2)"
    and o: "ownHookCalls ?S (hookCall BeforeAppend ''onbeforeappend'' ?S (el divWorld) @ mid
                            @ hookCall AfterAppend ''onappend'' ?S (el w2))
             = hookCall BeforeAppend ''onbeforeappend'' ?S (el divWorld)
               @ hookCall AfterAppend ''onappend'' ?S (el w2)"
    by blast
  from w c have e: "el w2 = ?n" by (simp add: demoEnv_def)
  then have d: "hookCall AfterAppend ''onappend'' ?S (el w2) = [Call AfterAppend 6 ?S (Some ?n)]"
    by (simp add: hookCall_def methodOf_def)
  from t b d have "mid = [Call AfterAppend 7 (VNode hookedNode) (Some ?n)]"
    by (simp add: divWorld_def)
  with o b d a show ?thesis by simp
qed

subsection \<open>Failures\<close>















end
